theory Spec2Isabelle
  imports Main "HOL-Library.Word"
begin

unbundle bit_operations_syntax

section \<open>Go values and the library functions the modelled code calls\<close>

text \<open>
  Go strings are byte sequences and are modelled as \<^typ>\<open>string\<close> (lists of 8-bit
  characters).  Go's \<open>int\<close> and \<open>int64\<close> are modelled as \<^typ>\<open>int\<close>: the modelled code
  only compares, adds and prints them.  A \<open>time.Time\<close> is the number of nanoseconds since
  the Unix epoch.  Errors are values; \<open>fmt.Errorf("msg: %w", err)\<close> is \<open>Wrap msg err\<close>,
  and a run-time panic is the value \<open>Panic\<close>.
\<close>

datatype error = Err string | Wrap string error | Panic string

definition ErrNotExist :: error where
  "ErrNotExist = Err ''no such file or directory''"

definition ErrBadPattern :: error where
  "ErrBadPattern = Err ''syntax error in pattern''"

type_synonym Time = int

definition Unix :: "Time \<Rightarrow> int" where
  "Unix t = t div 1000000000"

definition Before :: "Time \<Rightarrow> Time \<Rightarrow> bool" where
  "Before t u = (t < u)"


subsection \<open>fmt: the verb \<open>%d\<close>\<close>

definition digitChar :: "nat \<Rightarrow> char" where
  "digitChar d = char_of (48 + d)"

fun natDigits :: "nat \<Rightarrow> string" where
  "natDigits n = (if n < 10 then [digitChar n] else natDigits (n div 10) @ [digitChar (n mod 10)])"

declare natDigits.simps [simp del]

definition fmtInt :: "int \<Rightarrow> string" where
  "fmtInt i = (if i < 0 then CHR ''-'' # natDigits (nat (- i)) else natDigits (nat i))"

subsection \<open>strings\<close>

definition HasSuffix :: "string \<Rightarrow> string \<Rightarrow> bool" where
  "HasSuffix s sfx = (length sfx \<le> length s \<and> drop (length s - length sfx) s = sfx)"

definition HasPrefix :: "string \<Rightarrow> string \<Rightarrow> bool" where
  "HasPrefix s pfx = (take (length pfx) s = pfx)"

fun Contains :: "string \<Rightarrow> string \<Rightarrow> bool" where
  "Contains [] sub = (sub = [])"
| "Contains (c # cs) sub = (HasPrefix (c # cs) sub \<or> Contains cs sub)"

text \<open>
  \<open>strings.TrimSpace(s) == ""\<close> holds when \<open>s\<close> consists of white space only.  Go trims the
  code points with the Unicode property White Space; \<open>allSpace\<close> reads them in UTF-8.
\<close>

definition asciiSpace :: "char \<Rightarrow> bool" where
  "asciiSpace c = (c = CHR 0x09 \<or> c = CHR 0x0A \<or> c = CHR 0x0B \<or> c = CHR 0x0C \<or> c = CHR 0x0D \<or> c = CHR 0x20)"

fun allSpace :: "string \<Rightarrow> bool" where
  "allSpace [] = True"
| "allSpace [a] = asciiSpace a"
| "allSpace [a, b] =
     (if asciiSpace a then allSpace [b]
      else a = CHR 0xC2 \<and> (b = CHR 0x85 \<or> b = CHR 0xA0))"
| "allSpace (a # b # c # cs) =
     (if asciiSpace a then allSpace (b # c # cs)
      else if a = CHR 0xC2 \<and> (b = CHR 0x85 \<or> b = CHR 0xA0) then allSpace (c # cs)
      else if (a = CHR 0xE1 \<and> b = CHR 0x9A \<and> c = CHR 0x80)
              \<or> (a = CHR 0xE2 \<and> b = CHR 0x80 \<and> (of_char c :: nat) \<in> set [0x80 ..< 0x8B])
              \<or> (a = CHR 0xE2 \<and> b = CHR 0x80 \<and> (c = CHR 0xA8 \<or> c = CHR 0xA9 \<or> c = CHR 0xAF))
              \<or> (a = CHR 0xE2 \<and> b = CHR 0x81 \<and> c = CHR 0x9F)
              \<or> (a = CHR 0xE3 \<and> b = CHR 0x80 \<and> c = CHR 0x80)
           then allSpace cs
      else False)"

subsection \<open>path/filepath: Clean, Join, Base\<close>

fun splitSep :: "string \<Rightarrow> string list" where
  "splitSep [] = [[]]"
| "splitSep (c # cs) =
     (if c = CHR ''/'' then [] # splitSep cs
      else (case splitSep cs of [] \<Rightarrow> [[c]] | x # xs \<Rightarrow> (c # x) # xs))"

fun joinSep :: "string list \<Rightarrow> string" where
  "joinSep [] = []"
| "joinSep [x] = x"
| "joinSep (x # y # ys) = x @ ''/'' @ joinSep (y # ys)"

text \<open>
  \<open>cleanStep\<close> processes one path element; the elements kept so far are held newest first.
  Empty elements and \<open>.\<close> are dropped, \<open>..\<close> removes the element before it, is dropped
  at the root, and is kept at the start of a relative path.
\<close>

definition cleanStep :: "bool \<Rightarrow> string list \<Rightarrow> string \<Rightarrow> string list" where
  "cleanStep rooted st c =
     (if c = [] \<or> c = ''.'' then st
      else if c = ''..'' then
        (case st of
           [] \<Rightarrow> (if rooted then [] else [c])
         | t # ts \<Rightarrow> (if t = ''..'' then c # st else ts))
      else c # st)"

definition Clean :: "string \<Rightarrow> string" where
  "Clean p =
     (let rooted = (case p of [] \<Rightarrow> False | c # _ \<Rightarrow> c = CHR ''/'');
          kept = rev (foldl (cleanStep rooted) [] (splitSep p));
          out = (if rooted then ''/'' else []) @ joinSep kept
      in if out = [] then ''.'' else out)"

definition Join :: "string \<Rightarrow> string \<Rightarrow> string" where
  "Join a b =
     (if a = [] \<and> b = [] then []
      else if a = [] then Clean b
      else Clean (a @ ''/'' @ b))"

definition Base :: "string \<Rightarrow> string" where
  "Base p =
     (if p = [] then ''.''
      else (let q = rev (dropWhile (\<lambda>c. c = CHR ''/'') (rev p))
            in if q = [] then ''/'' else last (splitSep q)))"

subsection \<open>path/filepath: Match and Glob\<close>

text \<open>
  The pattern syntax of \<open>filepath.Match\<close>: \<open>*\<close> matches any sequence of non-separator
  characters, \<open>?\<close> one non-separator character, \<open>[...]\<close> a character class (negated by
  \<open>^\<close>), \<open>\c\<close> the character \<open>c\<close>, any other character itself.  A malformed pattern is
  \<open>ErrBadPattern\<close>.  The model is bytewise: it agrees with Go, which reads UTF-8 code
  points for \<open>?\<close> and classes, on ASCII names.
\<close>

datatype globTok = TStar | TAny | TLit char | TClass bool "(char \<times> char) list"

fun getEsc :: "string \<Rightarrow> (char \<times> string) option" where
  "getEsc [] = None"
| "getEsc (c # cs) =
     (if c = CHR ''-'' \<or> c = CHR '']'' then None
      else if c = CHR 0x5C then
        (case cs of [] \<Rightarrow> None | d # ds \<Rightarrow> (if ds = [] then None else Some (d, ds)))
      else (if cs = [] then None else Some (c, cs)))"

function parseRanges :: "string \<Rightarrow> nat \<Rightarrow> (char \<times> char) list \<Rightarrow> ((char \<times> char) list \<times> string) option" where
  "parseRanges chunk nrange acc =
     (case chunk of
        [] \<Rightarrow> None
      | c # cs \<Rightarrow>
          (if c = CHR '']'' \<and> nrange > 0 then Some (rev acc, cs)
           else (case getEsc chunk of
                   None \<Rightarrow> None
                 | Some (lo, rest) \<Rightarrow>
                     (case rest of
                        [] \<Rightarrow> None
                      | d # rest' \<Rightarrow>
                          (if d = CHR ''-'' then
                             (case getEsc rest' of
                                None \<Rightarrow> None
                              | Some (hi, rest'') \<Rightarrow> parseRanges rest'' (nrange + 1) ((lo, hi) # acc))
                           else parseRanges rest (nrange + 1) ((lo, lo) # acc))))))"
  by pat_completeness auto
termination
proof -
  have esc: "getEsc s = Some (r, t) \<Longrightarrow> length t < length s" for s r t
    by (cases s) (auto split: if_splits list.splits)
  show ?thesis
    by (relation "measure (\<lambda>(chunk, nrange, acc). length chunk)")
       (auto split: if_splits list.splits dest!: esc)
qed

declare parseRanges.simps [simp del]

text \<open>\<open>scanTok\<close> reads one pattern term and returns it with the rest of the pattern.\<close>

definition scanTok :: "string \<Rightarrow> (globTok \<times> string) option" where
  "scanTok p =
     (case p of
        [] \<Rightarrow> None
      | c # cs \<Rightarrow>
          (if c = CHR ''*'' then Some (TStar, cs)
           else if c = CHR ''?'' then Some (TAny, cs)
           else if c = CHR 0x5C then (case cs of [] \<Rightarrow> None | d # ds \<Rightarrow> Some (TLit d, ds))
           else if c = CHR ''['' then
             (case cs of
                [] \<Rightarrow> None
              | d # ds \<Rightarrow>
                  (if d = CHR ''^''
                   then map_option (\<lambda>(rs, rest). (TClass True rs, rest)) (parseRanges ds 0 [])
                   else map_option (\<lambda>(rs, rest). (TClass False rs, rest)) (parseRanges cs 0 [])))
           else Some (TLit c, cs)))"

fun parsePatN :: "nat \<Rightarrow> string \<Rightarrow> globTok list option" where
  "parsePatN n [] = Some []"
| "parsePatN 0 (c # cs) = None"
| "parsePatN (Suc n) (c # cs) =
     (case scanTok (c # cs) of
        None \<Rightarrow> None
      | Some (t, rest) \<Rightarrow> map_option (Cons t) (parsePatN n rest))"

text \<open>Every term consumes at least one character, so \<open>length p\<close> steps read all of \<open>p\<close>.\<close>

definition parsePat :: "string \<Rightarrow> globTok list option" where
  "parsePat p = parsePatN (length p) p"

definition inRanges :: "(char \<times> char) list \<Rightarrow> char \<Rightarrow> bool" where
  "inRanges rs c = list_ex (\<lambda>(lo, hi). (of_char lo :: nat) \<le> of_char c \<and> (of_char c :: nat) \<le> of_char hi) rs"

fun matchToks :: "globTok list \<Rightarrow> string \<Rightarrow> bool" where
  "matchToks [] s = (s = [])"
| "matchToks (TStar # ts) [] = matchToks ts []"
| "matchToks (TStar # ts) (c # cs) =
     (matchToks ts (c # cs) \<or> (c \<noteq> CHR ''/'' \<and> matchToks (TStar # ts) cs))"
| "matchToks (TAny # ts) [] = False"
| "matchToks (TAny # ts) (c # cs) = (c \<noteq> CHR ''/'' \<and> matchToks ts cs)"
| "matchToks (TLit a # ts) [] = False"
| "matchToks (TLit a # ts) (c # cs) = (c = a \<and> matchToks ts cs)"
| "matchToks (TClass neg rs # ts) [] = False"
| "matchToks (TClass neg rs # ts) (c # cs) = (inRanges rs c \<noteq> neg \<and> matchToks ts cs)"

definition Match :: "string \<Rightarrow> string \<Rightarrow> error + bool" where
  "Match pattern name =
     (case parsePat pattern of
        None \<Rightarrow> Inl ErrBadPattern
      | Some ts \<Rightarrow> Inr (matchToks ts name))"

subsection \<open>The file system\<close>

text \<open>
  The file system is the list of its entries (\<open>nodes\<close>), keyed by clean path (the modelled code passes
  only results of \<open>filepath.Join\<close> and \<open>filepath.Glob\<close> to it), together with the
  answers of the operating system that do not follow from the entries: \<open>statErr p\<close> is the
  error of \<open>os.Stat\<close> on the existing entry \<open>p\<close> (a dangling link, a permission), and
  \<open>removeErr p\<close> the error of \<open>os.Remove\<close> on it (a permission, a directory that is not
  empty).  Links that make two paths name one file are not modelled.
\<close>

record FileInfo =
  fiSize :: int
  fiModTime :: Time
  fiIsDir :: bool

record FS =
  nodes :: "(string \<times> FileInfo) list"
  statErr :: "string \<Rightarrow> error option"
  removeErr :: "string \<Rightarrow> error option"

definition exists :: "FS \<Rightarrow> string \<Rightarrow> bool" where
  "exists fs p = (map_of (nodes fs) p \<noteq> None)"

definition os_Stat :: "FS \<Rightarrow> string \<Rightarrow> error + FileInfo" where
  "os_Stat fs p =
     (case map_of (nodes fs) p of
        None \<Rightarrow> Inl ErrNotExist
      | Some fi \<Rightarrow> (case statErr fs p of Some e \<Rightarrow> Inl e | None \<Rightarrow> Inr fi))"

definition os_Remove :: "FS \<Rightarrow> string \<Rightarrow> error option \<times> FS" where
  "os_Remove fs p =
     (case map_of (nodes fs) p of
        None \<Rightarrow> (Some ErrNotExist, fs)
      | Some fi \<Rightarrow>
          (case removeErr fs p of
             Some e \<Rightarrow> (Some e, fs)
           | None \<Rightarrow> (None, fs\<lparr>nodes := filter (\<lambda>(q, _). q \<noteq> p) (nodes fs)\<rparr>)))"

text \<open>
  \<open>filepath.Glob\<close> returns the existing paths that match the pattern, and
  \<open>ErrBadPattern\<close> for a malformed pattern; it ignores input/output errors.
\<close>

definition Glob :: "FS \<Rightarrow> string \<Rightarrow> error + string list" where
  "Glob fs pattern =
     (case parsePat pattern of
        None \<Rightarrow> Inl ErrBadPattern
      | Some ts \<Rightarrow> Inr (filter (matchToks ts) (map fst (nodes fs))))"

section \<open>Configuration (package config)\<close>

text \<open>
  Isabelle record fields share one name space, so a field name that several Go structs use
  carries a short prefix of its struct here; the other names are the source's.
\<close>

record DatabaseConfig =
  Host :: string
  Port :: int
  Username :: string
  Password :: string
  Name :: string

text \<open>The optional settings \<open>*int\<close> are \<open>None\<close> for \<open>nil\<close>.\<close>

record RetentionConfig =
  RetentionDays :: "int option"
  MaxBackups :: "int option"

record LocalBackupConfig =
  Dir :: string
  Schedule :: "string list"
  Retention :: RetentionConfig
  Enabled :: bool

record Config =
  cfgTimezone :: string
  cfgDatabase :: DatabaseConfig
  LocalBackup :: LocalBackupConfig
  cfgEncryptionKey :: string

definition HasRetentionDays :: "RetentionConfig \<Rightarrow> bool" where
  "HasRetentionDays r = (RetentionDays r \<noteq> None)"

definition HasMaxBackups :: "RetentionConfig \<Rightarrow> bool" where
  "HasMaxBackups r = (MaxBackups r \<noteq> None)"

definition charIn :: "char \<Rightarrow> char \<Rightarrow> char \<Rightarrow> bool" where
  "charIn lo hi c = ((of_char lo :: nat) \<le> of_char c \<and> (of_char c :: nat) \<le> of_char hi)"

text \<open>The regular expression \<open>^([0-1][0-9]|2[0-3]):([0-5][0-9])$\<close>.\<close>

definition isValidTimeFormat :: "string \<Rightarrow> bool" where
  "isValidTimeFormat timeStr =
     (case timeStr of
        [h1, h2, c, m1, m2] \<Rightarrow>
          ((charIn CHR ''0'' CHR ''1'' h1 \<and> charIn CHR ''0'' CHR ''9'' h2)
             \<or> (h1 = CHR ''2'' \<and> charIn CHR ''0'' CHR ''3'' h2))
          \<and> c = CHR '':'' \<and> charIn CHR ''0'' CHR ''5'' m1 \<and> charIn CHR ''0'' CHR ''9'' m2
      | _ \<Rightarrow> False)"

definition quoted :: "string \<Rightarrow> string" where
  "quoted s = [CHR 0x27] @ s @ [CHR 0x27]"

definition validateLocalBackup :: "Config \<Rightarrow> error option" where
  "validateLocalBackup c =
     (let lb = LocalBackup c in
      if allSpace (Dir lb) then Some (Err ''BACKUP_DIR is required'')
      else if Contains (Dir lb) ''..'' then Some (Err (''BACKUP_DIR cannot contain '' @ quoted ''..''))
      else
        (case find (\<lambda>schedule. \<not> isValidTimeFormat schedule) (Schedule lb) of
           Some schedule \<Rightarrow>
             Some (Err (''invalid schedule format '' @ quoted schedule @ '', expected HH:MM''))
         | None \<Rightarrow>
             (let hasRetentionDays = HasRetentionDays (Retention lb);
                  hasMaxBackups = HasMaxBackups (Retention lb)
              in if hasRetentionDays \<and> hasMaxBackups
                 then Some (Err ''cannot use both RETENTION_DAYS and BACKUP_LIMIT simultaneously, choose one'')
                 else
                   (case (case RetentionDays (Retention lb) of
                            Some d \<Rightarrow> (if d < 1 then Some (Err (''RETENTION_DAYS must be >= 1, got '' @ fmtInt d)) else None)
                          | None \<Rightarrow> None) of
                      Some e \<Rightarrow> Some e
                    | None \<Rightarrow>
                        (case MaxBackups (Retention lb) of
                           Some m \<Rightarrow> (if m < 1 then Some (Err (''BACKUP_LIMIT must be >= 1, got '' @ fmtInt m)) else None)
                         | None \<Rightarrow> None)))))"

text \<open>
  \<open>Validate\<close> runs the validators in order and returns the first error.  Those of the
  database, the time zone, the remote providers and the notification settings are
  parameters here.
\<close>

record Validators =
  validateDatabase :: "Config \<Rightarrow> error option"
  validateTimezone :: "Config \<Rightarrow> error option"
  validateRemoteProviders :: "Config \<Rightarrow> error option"
  validateNotification :: "Config \<Rightarrow> error option"

definition Validate :: "Validators \<Rightarrow> Config \<Rightarrow> error option" where
  "Validate vs c =
     (case validateDatabase vs c of
        Some e \<Rightarrow> Some (Wrap ''database config'' e)
      | None \<Rightarrow>
     (case validateTimezone vs c of
        Some e \<Rightarrow> Some (Wrap ''timezone config'' e)
      | None \<Rightarrow>
     (case validateLocalBackup c of
        Some e \<Rightarrow> Some (Wrap ''local backup config'' e)
      | None \<Rightarrow>
     (case validateRemoteProviders vs c of
        Some e \<Rightarrow> Some (Wrap ''remote providers config'' e)
      | None \<Rightarrow>
     (case validateNotification vs c of
        Some e \<Rightarrow> Some (Wrap ''notify config'' e)
      | None \<Rightarrow> None)))))"

text \<open>
  \<open>LoadFromEnv\<close> and \<open>LoadFromYAML\<close> end with \<open>return cfg, cfg.Validate()\<close>, and
  \<open>loadConfigOrFail\<close> hands the configuration on only when that error is nil.  The
  argument \<open>c\<close> is the configuration as read from the environment or the file.
\<close>

definition loadConfigOrFail :: "Validators \<Rightarrow> bool \<Rightarrow> Config \<Rightarrow> error + Config" where
  "loadConfigOrFail vs fromYAML c =
     (case Validate vs c of
        Some e \<Rightarrow>
          Inl (Wrap (if fromYAML then ''failed to load YAML config'' else ''failed to load config from ENV'') e)
      | None \<Rightarrow> Inr c)"

section \<open>Remote naming (package remote, Options)\<close>

record RemoteOptions =
  optName :: string
  optType :: string
  optPath :: string
  MaxVersions :: int
  optDatabase :: DatabaseConfig
  optEncryptionKey :: string

definition HasVersioning :: "RemoteOptions \<Rightarrow> bool" where
  "HasVersioning opt = (MaxVersions opt > 0)"

definition GetRemoteFileName :: "RemoteOptions \<Rightarrow> int \<Rightarrow> string" where
  "GetRemoteFileName opt currentVersion =
     (let ext = ''.sql.gz'';
          ext = (if optEncryptionKey opt \<noteq> '''' then ext @ ''.age'' else ext)
      in if HasVersioning opt
         then Name (optDatabase opt) @ ''-v'' @ fmtInt currentVersion @ ext
         else Name (optDatabase opt) @ ext)"

definition GetRcloneRemotePath :: "RemoteOptions \<Rightarrow> string" where
  "GetRcloneRemotePath opt = optName opt @ '':'' @ optPath opt"

definition RemotePathFor :: "RemoteOptions \<Rightarrow> string \<Rightarrow> string" where
  "RemotePathFor opt fileName =
     (if optPath opt = '''' then fileName else optPath opt @ ''/'' @ fileName)"

section \<open>The retention engine (package retention)\<close>

text \<open>
  The clock: \<open>Now\<close> is the reading of \<open>time.Now()\<close>, and \<open>AddDate t y m d\<close> is
  \<open>t.AddDate(y, m, d)\<close>, whose result depends on the time zone of the process.
\<close>

record Clock =
  Now :: Time
  AddDate :: "Time \<Rightarrow> int \<Rightarrow> int \<Rightarrow> int \<Rightarrow> Time"

record RetentionOptions =
  retRetention :: RetentionConfig
  retOutputDir :: string
  DatabaseName :: string

record BackupFile =
  Path :: string
  ModTime :: Time
  Size :: int

definition ret_HasRetention :: "RetentionOptions \<Rightarrow> bool" where
  "ret_HasRetention opt = (HasMaxBackups (retRetention opt) \<or> HasRetentionDays (retRetention opt))"

definition ret_HasMaxBackups :: "RetentionOptions \<Rightarrow> bool" where
  "ret_HasMaxBackups opt = HasMaxBackups (retRetention opt)"

definition ret_HasRetentionDays :: "RetentionOptions \<Rightarrow> bool" where
  "ret_HasRetentionDays opt = HasRetentionDays (retRetention opt)"

text \<open>The loop of \<open>findBackups\<close> over the matches: a path whose \<open>os.Stat\<close> fails is skipped.\<close>

fun statMatches :: "FS \<Rightarrow> string list \<Rightarrow> BackupFile list" where
  "statMatches fs [] = []"
| "statMatches fs (path # paths) =
     (case os_Stat fs path of
        Inl err \<Rightarrow> statMatches fs paths
      | Inr info \<Rightarrow>
          \<lparr>Path = path, ModTime = fiModTime info, Size = fiSize info\<rparr> # statMatches fs paths)"

text \<open>
  \<open>findBackups\<close> returns the slice \<open>backups\<close> and its capacity, which is the number of
  matches (\<open>make(BackupFiles, 0, len(matches))\<close>).  \<open>sort.Sort\<close> orders by \<open>Less\<close>, that is
  by \<open>ModTime\<close>; Go leaves the order of elements with equal times open, here they keep the
  order of the matches.
\<close>

definition findBackups :: "RetentionOptions \<Rightarrow> FS \<Rightarrow> error + (BackupFile list \<times> nat)" where
  "findBackups opt fs =
     (let pattern = Join (retOutputDir opt) (DatabaseName opt @ ''-*.sql.gz*'') in
      case Glob fs pattern of
        Inl err \<Rightarrow> Inl (Wrap ''failed to find backups'' err)
      | Inr matches \<Rightarrow> Inr (sort_key ModTime (statMatches fs matches), length matches))"

text \<open>
  The deletion loop, which \<open>cleanByCount\<close> and \<open>cleanByDays\<close> both contain: a backup whose
  \<open>os.Remove\<close> fails is skipped, the others are collected in \<open>removed\<close>.
\<close>

fun removeLoop :: "FS \<Rightarrow> BackupFile list \<Rightarrow> BackupFile list \<times> FS" where
  "removeLoop fs [] = ([], fs)"
| "removeLoop fs (backup # rest) =
     (case os_Remove fs (Path backup) of
        (Some err, fs') \<Rightarrow> removeLoop fs' rest
      | (None, fs') \<Rightarrow> (case removeLoop fs' rest of (removed, fs'') \<Rightarrow> (backup # removed, fs'')))"

text \<open>
  The zero value of \<open>BackupFile\<close> (the zero \<open>time.Time\<close> is 1 January of year 1), which
  fills a slice between its length and its capacity.
\<close>

definition zeroBackupFile :: BackupFile where
  "zeroBackupFile = \<lparr>Path = '''', ModTime = - 62135596800 * 1000000000, Size = 0\<rparr>"

text \<open>
  The slice expression \<open>backups[:high]\<close> on a slice of capacity \<open>capacity\<close>: it panics
  unless \<open>0 \<le> high \<le> capacity\<close>.
\<close>

definition sliceTo :: "BackupFile list \<Rightarrow> nat \<Rightarrow> int \<Rightarrow> error + BackupFile list" where
  "sliceTo backups capacity high =
     (if high < 0 \<or> int capacity < high then Inl (Panic ''slice bounds out of range'')
      else Inr (take (nat high) (backups @ replicate (capacity - length backups) zeroBackupFile)))"

definition cleanByCount :: "FS \<Rightarrow> BackupFile list \<Rightarrow> nat \<Rightarrow> int \<Rightarrow> error + (BackupFile list \<times> FS)" where
  "cleanByCount fs backups capacity maxBackups =
     (if int (length backups) < maxBackups then Inr ([], fs)
      else
        (case sliceTo backups capacity (int (length backups) - maxBackups) of
           Inl err \<Rightarrow> Inl err
         | Inr toRemove \<Rightarrow> Inr (removeLoop fs toRemove)))"

definition cleanByDays :: "Clock \<Rightarrow> FS \<Rightarrow> BackupFile list \<Rightarrow> int \<Rightarrow> error + (BackupFile list \<times> FS)" where
  "cleanByDays clk fs backups retentionDays =
     (let cutoff = AddDate clk (Now clk) 0 0 (- retentionDays);
          retentionsDays = filter (\<lambda>backup. Before (ModTime backup) cutoff) backups
      in if length retentionsDays \<le> 0 then Inr ([], fs)
         else Inr (removeLoop fs retentionsDays))"

text \<open>
  \<open>Run\<close> of the retention engine.  The source returns the error only and logs the number
  and the size of \<open>backupRemoved\<close>; the model returns that list and the file system too.
  A panic of a callee passes through \<open>Run\<close>; an error it returns is wrapped.
\<close>

definition Retention_Run :: "Clock \<Rightarrow> RetentionOptions \<Rightarrow> FS \<Rightarrow> error option \<times> BackupFile list \<times> FS" where
  "Retention_Run clk opt fs =
     (if \<not> ret_HasRetention opt then (None, [], fs)
      else
        (case findBackups opt fs of
           Inl err \<Rightarrow> (Some (Wrap ''find backups'' err), [], fs)
         | Inr (backups, capacity) \<Rightarrow>
             (if length backups = 0 then (None, [], fs)
              else
                (case MaxBackups (retRetention opt) of
                   Some maxBackups \<Rightarrow>
                     (case cleanByCount fs backups capacity maxBackups of
                        Inl (Panic m) \<Rightarrow> (Some (Panic m), [], fs)
                      | Inl err \<Rightarrow> (Some (Wrap ''clean count'' err), [], fs)
                      | Inr (backupRemoved, fs') \<Rightarrow> (None, backupRemoved, fs'))
                 | None \<Rightarrow>
                     (case RetentionDays (retRetention opt) of
                        Some retentionDays \<Rightarrow>
                          (case cleanByDays clk fs backups retentionDays of
                             Inl (Panic m) \<Rightarrow> (Some (Panic m), [], fs)
                           | Inl err \<Rightarrow> (Some (Wrap ''clean days'' err), [], fs)
                           | Inr (backupRemoved, fs') \<Rightarrow> (None, backupRemoved, fs'))
                      | None \<Rightarrow> (None, [], fs))))))"

section \<open>The backup producer (package backup)\<close>

text \<open>
  \<open>GenerateFileName\<close> is a \<open>func() string\<close>; its argument here is the clock reading it may
  consult (the name built by \<open>WithConfig\<close> contains a time stamp).
\<close>

record BackupOptions =
  GenerateFileName :: "Time \<Rightarrow> string"
  bkOutputDir :: string
  bkRetention :: RetentionConfig
  bkDatabase :: DatabaseConfig
  bkEncryptionKey :: string

definition bk_HasRetention :: "BackupOptions \<Rightarrow> bool" where
  "bk_HasRetention opt = (HasMaxBackups (bkRetention opt) \<or> HasRetentionDays (bkRetention opt))"

definition IsEncryptEnabled :: "BackupOptions \<Rightarrow> bool" where
  "IsEncryptEnabled opt = (bkEncryptionKey opt \<noteq> '''')"

definition WithoutRetention :: "BackupOptions \<Rightarrow> BackupOptions" where
  "WithoutRetention opts = opts\<lparr>bkRetention := \<lparr>RetentionDays = None, MaxBackups = None\<rparr>\<rparr>"

definition createRetention :: "BackupOptions \<Rightarrow> RetentionOptions" where
  "createRetention opt =
     \<lparr>retRetention = \<lparr>RetentionDays = RetentionDays (bkRetention opt), MaxBackups = MaxBackups (bkRetention opt)\<rparr>,
      retOutputDir = bkOutputDir opt,
      DatabaseName = Name (bkDatabase opt)\<rparr>"

subsection \<open>The writer chain: file, optional age encryption, gzip\<close>

text \<open>
  \<open>compress/gzip\<close> writes a ten-byte header on the first \<open>Write\<close> or on \<open>Close\<close>,
  then the \<open>Name\<close> in Latin-1 with a terminating zero (the writer fails there when the
  name has a code point outside 1..255), then the deflate stream, the CRC-32 and the
  size.  The header is modelled; the rest of the member (\<open>gzipBody\<close>) and the age
  encryption (\<open>ageSeal\<close>) are parameters.
\<close>

record Codec =
  gzipBody :: "string \<Rightarrow> string"
  ageSeal :: "string \<Rightarrow> string \<Rightarrow> string"

fun latin1 :: "string \<Rightarrow> string option" where
  "latin1 [] = Some []"
| "latin1 (c # cs) =
     (if c \<noteq> CHR 0x00 \<and> (of_char c :: nat) < 0x80 then map_option (Cons c) (latin1 cs)
      else if c = CHR 0xC2 \<or> c = CHR 0xC3 then
        (case cs of
           [] \<Rightarrow> None
         | d # ds \<Rightarrow>
             (if charIn CHR 0x80 CHR 0xBF d
              then map_option (Cons (if c = CHR 0xC2 then d else char_of ((of_char d :: nat) + 0x40))) (latin1 ds)
              else None))
      else None)"

definition le32 :: "32 word \<Rightarrow> string" where
  "le32 w = [char_of (uint w), char_of (uint (drop_bit 8 w)),
             char_of (uint (drop_bit 16 w)), char_of (uint (drop_bit 24 w))]"

definition gzipHeader :: "string \<Rightarrow> Time \<Rightarrow> string" where
  "gzipHeader name modTime =
     [CHR 0x1F, CHR 0x8B, CHR 0x08, (if name \<noteq> [] then CHR 0x08 else CHR 0x00)]
       @ le32 (if 0 < modTime then word_of_int (Unix modTime) else 0)
       @ [CHR 0x00, CHR 0xFF]"

text \<open>The bytes a gzip writer has written to the writer below it once it is closed.\<close>

definition gzipStream :: "Codec \<Rightarrow> string \<Rightarrow> Time \<Rightarrow> string \<Rightarrow> string" where
  "gzipStream cd name modTime data =
     gzipHeader name modTime
       @ (case latin1 name of
            None \<Rightarrow> []
          | Some l \<Rightarrow> (if name = [] then [] else l @ [CHR 0x00]) @ gzipBody cd data)"

subsection \<open>The dump process\<close>

text \<open>
  What the environment answers during one run: the errors of the calls that can fail, the
  bytes \<open>pg_dump\<close> writes to its standard output, the result of \<open>cmd.Wait\<close> (an error for
  a non-zero exit or a kill by the deadline), and \<open>persisted\<close>, the part of the bytes
  written to the artifact that the file system keeps (all of them unless a write fails).
\<close>

record DumpEnv =
  mkdirErr :: "error option"
  createErr :: "error option"
  encryptorErr :: "error option"
  ageWriterErr :: "error option"
  stderrPipeErr :: "error option"
  startErr :: "error option"
  stdout :: string
  waitErr :: "error option"
  persisted :: "string \<Rightarrow> string"

definition pgDumpArgs :: "BackupOptions \<Rightarrow> string list" where
  "pgDumpArgs opt =
     [''-h'', Host (bkDatabase opt),
      ''-p'', fmtInt (Port (bkDatabase opt)),
      ''-U'', Username (bkDatabase opt),
      ''-d'', Name (bkDatabase opt),
      ''-F'', ''c'',
      ''--no-privileges'',
      ''--no-owner'',
      ''--no-acl'',
      ''--verbose'',
      ''--compress=6'',
      ''--no-unlogged-table-data'',
      ''--lock-wait-timeout=300'']"

definition putFile :: "FS \<Rightarrow> string \<Rightarrow> FileInfo \<Rightarrow> FS" where
  "putFile fs p fi =
     fs\<lparr>nodes := filter (\<lambda>(q, _). q \<noteq> p) (nodes fs) @ [(p, fi)]\<rparr>"

text \<open>
  The bytes written to the artifact file once the gzip writer and, under encryption, the
  age writer are closed, when \<open>data\<close> went into the gzip writer.
\<close>

definition writerChain :: "BackupOptions \<Rightarrow> Codec \<Rightarrow> string \<Rightarrow> Time \<Rightarrow> string \<Rightarrow> string" where
  "writerChain opt cd outputPath now data =
     (let gz = gzipStream cd (Base outputPath) now data
      in if IsEncryptEnabled opt then ageSeal cd (bkEncryptionKey opt) gz else gz)"

text \<open>
  \<open>executePgDump\<close> returns its error, the file system, and the arguments of the process
  when one was started.  The deferred \<open>Close\<close> calls run on every return after the writers
  exist, so the artifact then holds the closed stream; \<open>os.Remove\<close> on the failure of
  \<open>cmd.Wait\<close> comes before them, and its error is discarded.
\<close>

definition executePgDump :: "BackupOptions \<Rightarrow> Codec \<Rightarrow> DumpEnv \<Rightarrow> Time \<Rightarrow> FS \<Rightarrow> string
    \<Rightarrow> error option \<times> FS \<times> string list option" where
  "executePgDump opt cd env now fs outputPath =
     (case createErr env of
        Some err \<Rightarrow> (Some err, fs, None)
      | None \<Rightarrow>
          (let holding = (\<lambda>bytes. putFile fs outputPath
                             \<lparr>fiSize = int (length (persisted env bytes)), fiModTime = now, fiIsDir = False\<rparr>);
               closed = (\<lambda>data. holding (writerChain opt cd outputPath now data))
           in case (if IsEncryptEnabled opt then encryptorErr env else None) of
                Some err \<Rightarrow> (Some (Wrap ''failed to create encryptor'' err), holding [], None)
              | None \<Rightarrow>
             (case (if IsEncryptEnabled opt then ageWriterErr env else None) of
                Some err \<Rightarrow> (Some (Wrap ''failed to create age writer'' err), holding [], None)
              | None \<Rightarrow>
             (case stderrPipeErr env of
                Some err \<Rightarrow> (Some (Wrap ''failed to create stderr pipe'' err), closed [], None)
              | None \<Rightarrow>
             (case startErr env of
                Some err \<Rightarrow> (Some (Wrap ''failed to start pg_dump'' err), closed [], None)
              | None \<Rightarrow>
             (case waitErr env of
                Some err \<Rightarrow>
                  (case os_Remove (holding []) outputPath of
                     (None, fs') \<Rightarrow> (Some (Wrap ''pg_dump failed'' err), fs', Some (pgDumpArgs opt))
                   | (Some rmErr, fs') \<Rightarrow>
                       (Some (Wrap ''pg_dump failed'' err), closed (stdout env), Some (pgDumpArgs opt)))
              | None \<Rightarrow> (None, closed (stdout env), Some (pgDumpArgs opt))))))))"

text \<open>
  \<open>Run\<close> of the backup producer returns the path of the artifact or an error, the file
  system, and the arguments of the dump process when one was started.  An error of the
  retention run is logged only; a panic of the retention run is not recovered and leaves
  \<open>Run\<close>, which the result \<open>Inl (Panic m)\<close> stands for.
\<close>

definition Backup_Run :: "BackupOptions \<Rightarrow> Codec \<Rightarrow> DumpEnv \<Rightarrow> Clock \<Rightarrow> FS
    \<Rightarrow> (error + string) \<times> FS \<times> string list option" where
  "Backup_Run opt cd env clk fs =
     (case mkdirErr env of
        Some err \<Rightarrow> (Inl (Wrap ''failed to create backup directory'' err), fs, None)
      | None \<Rightarrow>
          (let filename = GenerateFileName opt (Now clk);
               filename = (if IsEncryptEnabled opt then filename @ ''.age'' else filename);
               f = Join (bkOutputDir opt) filename
           in case executePgDump opt cd env (Now clk) fs f of
                (Some err, fs1, started) \<Rightarrow> (Inl (Wrap ''pg_dump failed'' err), fs1, started)
              | (None, fs1, started) \<Rightarrow>
                  (case os_Stat fs1 f of
                     Inl err \<Rightarrow> (Inl (Wrap (''failed to stat file '' @ f) err), fs1, started)
                   | Inr fileInfo \<Rightarrow>
                       (if fiSize fileInfo = 0
                        then (Inl (Err ''backup file is empty''), snd (os_Remove fs1 f), started)
                        else if bk_HasRetention opt
                        then (case Retention_Run clk (createRetention opt) fs1 of
                                (Some (Panic m), removed, fs2) \<Rightarrow> (Inl (Panic m), fs2, started)
                              | (err, removed, fs2) \<Rightarrow> (Inr f, fs2, started))
                        else (Inr f, fs1, started)))))"

section \<open>The restore lock (package lock)\<close>

text \<open>
  The lock file as one \<open>flock.Flock\<close> handle sees it: free, held through another handle
  or process, or held through this handle.  \<open>flockErr\<close> is the error of opening or locking
  the file, if there is one.  \<open>TryLock\<close> on a handle that already holds the lock returns
  true at once; \<open>Unlock\<close> on a handle that does not hold it does nothing.
\<close>

datatype holder = Unheld | HeldByOther | HeldByThis

record Flock =
  lockHolder :: holder
  flockErr :: "error option"

definition TryLock :: "Flock \<Rightarrow> (bool \<times> error option) \<times> Flock" where
  "TryLock f =
     (if lockHolder f = HeldByThis then ((True, None), f)
      else (case flockErr f of
              Some err \<Rightarrow> ((False, Some err), f)
            | None \<Rightarrow>
                (if lockHolder f = HeldByOther then ((False, None), f)
                 else ((True, None), f\<lparr>lockHolder := HeldByThis\<rparr>))))"

definition Unlock :: "Flock \<Rightarrow> error option \<times> Flock" where
  "Unlock f = (None, (if lockHolder f = HeldByThis then f\<lparr>lockHolder := Unheld\<rparr> else f))"

definition IsRestoreRunning :: "Flock \<Rightarrow> bool \<times> Flock" where
  "IsRestoreRunning f =
     (case TryLock f of
        ((locked, err), f1) \<Rightarrow>
          (if err \<noteq> None \<or> \<not> locked then (True, f1)
           else (case Unlock f1 of (_, f2) \<Rightarrow> (False, f2))))"

definition UnlockForRestore :: "Flock \<Rightarrow> error option \<times> Flock" where
  "UnlockForRestore f = Unlock f"

section \<open>The scheduler (package scheduler)\<close>

text \<open>
  The state a fire of the local job can change: the counter \<open>runningJobs\<close> of the
  scheduler, and the world, which is the file system, the lock file, and a journal of what
  the fire did outside the file system.  Log lines are not modelled.
\<close>

datatype event =
    RunningJobs int
  | ProcessStarted string "string list"
  | NotifyError string
  | NotifySuccess string
  | Panicked string

record World =
  fileSystem :: FS
  restoreLock :: Flock
  journal :: "event list"

record Scheduler =
  runningJobs :: int

fun errorString :: "error \<Rightarrow> string" where
  "errorString (Err m) = m"
| "errorString (Wrap m e) = m @ '': '' @ errorString e"
| "errorString (Panic m) = ''panic: '' @ m"

definition startedEvents :: "string list option \<Rightarrow> event list" where
  "startedEvents started = (case started of None \<Rightarrow> [] | Some args \<Rightarrow> [ProcessStarted ''pg_dump'' args])"

text \<open>
  The texts of the two notifications begin with a sign of three bytes in UTF-8 (a cross
  mark, a check mark) and a space.  A panic of \<open>Run\<close> is not recovered: the deferred
  decrement of the counter runs, no notification is sent, and the panic leaves
  \<open>runLocalBackup\<close>, which the last entry \<open>Panicked\<close> of the journal stands for.
\<close>

definition crossMark :: string where
  "crossMark = [CHR 0xE2, CHR 0x9D, CHR 0x8C]"

definition checkMark :: string where
  "checkMark = [CHR 0xE2, CHR 0x9C, CHR 0x85]"

definition runLocalBackup :: "BackupOptions \<Rightarrow> Codec \<Rightarrow> DumpEnv \<Rightarrow> Clock \<Rightarrow> Scheduler \<times> World \<Rightarrow> Scheduler \<times> World" where
  "runLocalBackup opt cd env clk sw =
     (case sw of (s, w) \<Rightarrow>
        (case IsRestoreRunning (restoreLock w) of
           (running, lk) \<Rightarrow>
             (if running then (s, w\<lparr>restoreLock := lk\<rparr>)
              else
                (let s1 = s\<lparr>runningJobs := runningJobs s + 1\<rparr>;
                     w1 = w\<lparr>restoreLock := lk, journal := journal w @ [RunningJobs (runningJobs s1)]\<rparr>
                 in case Backup_Run opt cd env clk (fileSystem w1) of
                      (result, fs', started) \<Rightarrow>
                        (let s2 = s1\<lparr>runningJobs := runningJobs s1 - 1\<rparr>;
                             ending =
                               (case result of
                                  Inl (Panic m) \<Rightarrow> [RunningJobs (runningJobs s2), Panicked m]
                                | Inl err \<Rightarrow>
                                    [NotifyError (crossMark @ '' Backup local failed: '' @ errorString err),
                                     RunningJobs (runningJobs s2)]
                                | Inr backupFile \<Rightarrow>
                                    [NotifySuccess (checkMark @ '' Backup local completed: '' @ backupFile),
                                     RunningJobs (runningJobs s2)])
                         in (s2, w1\<lparr>fileSystem := fs',
                                    journal := journal w1 @ startedEvents started @ ending\<rparr>))))))"

section \<open>Short identifiers and the catalog (packages utils and catalog)\<close>

subsection \<open>crypto/sha256 and encoding/hex\<close>

definition rotr32 :: "nat \<Rightarrow> 32 word \<Rightarrow> 32 word" where
  "rotr32 n w = or (drop_bit n w) (push_bit (32 - n) w)"

definition Ch :: "32 word \<Rightarrow> 32 word \<Rightarrow> 32 word \<Rightarrow> 32 word" where
  "Ch x y z = xor (and x y) (and (not x) z)"

definition Maj :: "32 word \<Rightarrow> 32 word \<Rightarrow> 32 word \<Rightarrow> 32 word" where
  "Maj x y z = xor (xor (and x y) (and x z)) (and y z)"

definition bsig0 :: "32 word \<Rightarrow> 32 word" where
  "bsig0 x = xor (xor (rotr32 2 x) (rotr32 13 x)) (rotr32 22 x)"

definition bsig1 :: "32 word \<Rightarrow> 32 word" where
  "bsig1 x = xor (xor (rotr32 6 x) (rotr32 11 x)) (rotr32 25 x)"

definition ssig0 :: "32 word \<Rightarrow> 32 word" where
  "ssig0 x = xor (xor (rotr32 7 x) (rotr32 18 x)) (drop_bit 3 x)"

definition ssig1 :: "32 word \<Rightarrow> 32 word" where
  "ssig1 x = xor (xor (rotr32 17 x) (rotr32 19 x)) (drop_bit 10 x)"

definition K256 :: "32 word list" where
  "K256 =
    [1116352408, 1899447441, 3049323471, 3921009573, 961987163, 1508970993, 2453635748, 2870763221,
     3624381080, 310598401, 607225278, 1426881987, 1925078388, 2162078206, 2614888103, 3248222580,
     3835390401, 4022224774, 264347078, 604807628, 770255983, 1249150122, 1555081692, 1996064986,
     2554220882, 2821834349, 2952996808, 3210313671, 3336571891, 3584528711, 113926993, 338241895,
     666307205, 773529912, 1294757372, 1396182291, 1695183700, 1986661051, 2177026350, 2456956037,
     2730485921, 2820302411, 3259730800, 3345764771, 3516065817, 3600352804, 4094571909, 275423344,
     430227734, 506948616, 659060556, 883997877, 958139571, 1322822218, 1537002063, 1747873779,
     1955562222, 2024104815, 2227730452, 2361852424, 2428436474, 2756734187, 3204031479, 3329325298]"

definition H256 :: "32 word list" where
  "H256 = [1779033703, 3144134277, 1013904242, 2773480762, 1359893119, 2600822924, 528734635, 1541459225]"

definition be32 :: "string \<Rightarrow> 32 word" where
  "be32 bs = foldl (\<lambda>w c. push_bit 8 w + of_char c) 0 (take 4 bs)"

definition be32bytes :: "32 word \<Rightarrow> string" where
  "be32bytes w = [char_of (uint (drop_bit 24 w)), char_of (uint (drop_bit 16 w)),
                  char_of (uint (drop_bit 8 w)), char_of (uint w)]"

definition be64bytes :: "nat \<Rightarrow> string" where
  "be64bytes n =
     (let w = (word_of_nat n :: 64 word)
      in map (\<lambda>i. char_of (uint (drop_bit (8 * (7 - i)) w))) [0 ..< 8])"

definition sha256pad :: "string \<Rightarrow> string" where
  "sha256pad msg =
     msg @ [CHR 0x80] @ replicate ((119 - length msg mod 64) mod 64) (CHR 0x00)
         @ be64bytes (8 * length msg)"

primrec chop :: "nat \<Rightarrow> nat \<Rightarrow> 'a list \<Rightarrow> 'a list list" where
  "chop 0 k xs = []"
| "chop (Suc n) k xs = take k xs # chop n k (drop k xs)"

definition blockWords :: "string \<Rightarrow> 32 word list" where
  "blockWords block = map be32 (chop 16 4 block)"

definition schedule :: "32 word list \<Rightarrow> 32 word list" where
  "schedule ws =
     fold (\<lambda>t w. w @ [ssig1 (w ! (t - 2)) + w ! (t - 7) + ssig0 (w ! (t - 15)) + w ! (t - 16)])
          [16 ..< 64] ws"

fun shaRound :: "(32 word \<times> 32 word) \<Rightarrow> 32 word list \<Rightarrow> 32 word list" where
  "shaRound (k, w) [a, b, c, d, e, f, g, h] =
     (let t1 = h + bsig1 e + Ch e f g + k + w;
          t2 = bsig0 a + Maj a b c
      in [t1 + t2, a, b, c, d + t1, e, f, g])"
| "shaRound (k, w) st = st"

definition compress :: "string \<Rightarrow> 32 word list \<Rightarrow> 32 word list" where
  "compress block hs = map2 (+) hs (fold shaRound (zip K256 (schedule (blockWords block))) hs)"

definition Sum256 :: "string \<Rightarrow> string" where
  "Sum256 msg =
     (let padded = sha256pad msg
      in concat (map be32bytes (fold compress (chop (length padded div 64) 64 padded) H256)))"

definition hexDigit :: "nat \<Rightarrow> char" where
  "hexDigit n = ''0123456789abcdef'' ! (n mod 16)"

definition EncodeToString :: "string \<Rightarrow> string" where
  "EncodeToString bs = concat (map (\<lambda>c. [hexDigit ((of_char c :: nat) div 16), hexDigit (of_char c)]) bs)"

subsection \<open>Short identifiers\<close>

text \<open>\<open>utils.GenerateShortID\<close>: the first four bytes of the SHA-256 of \<open>name-seconds\<close>, in hexadecimal.\<close>

definition shortIDData :: "string \<Rightarrow> Time \<Rightarrow> string" where
  "shortIDData name modTime = name @ ''-'' @ fmtInt (Unix modTime)"

definition GenerateShortID :: "string \<Rightarrow> Time \<Rightarrow> string" where
  "GenerateShortID name modTime =
     (let data = shortIDData name modTime;
          h = Sum256 data
      in EncodeToString (take 4 h))"

text \<open>
  The method \<open>Catalog.generateShortID\<close> of the catalog file that declares it: the first four
  bytes of the SHA-256 of the name followed by a fixed salt.
\<close>

definition Catalog_generateShortID :: "string \<Rightarrow> string" where
  "Catalog_generateShortID name =
     (let h = Sum256 (name @ ''pgopher-salt'')
      in EncodeToString (take 4 h))"

subsection \<open>The catalog\<close>

text \<open>
  A directory entry as \<open>os.ReadDir\<close> returns it; \<open>entInfo\<close> is \<open>None\<close> when \<open>entry.Info()\<close>
  returns an error (the file has gone since the directory was read).  The catalog's
  \<open>BackupFile\<close> has its \<open>ModTime\<close> as a formatted string in one catalog file and as a
  \<open>time.Time\<close> in the other, so the record leaves its type open.
\<close>

record DirEntry =
  entName :: string
  entIsDir :: bool
  entInfo :: "FileInfo option"

record 't CatalogFile =
  ShortID :: string
  catName :: string
  catSize :: int
  catModTime :: 't
  Encrypted :: bool

record RemoteProvider =
  rpName :: string
  rpEnabled :: bool

record RemoteEntry =
  reName :: string
  reSize :: int
  reModTime :: Time

record CatalogOptions =
  backupDir :: string
  providers :: "RemoteProvider list"

text \<open>
  What the catalog reads: the result of \<open>os.ReadDir\<close> on a directory, the error of
  creating the remote provider, and the result of its \<open>List\<close>.
\<close>

record CatalogEnv =
  ReadDir :: "string \<Rightarrow> error + DirEntry list"
  newProviderErr :: "RemoteProvider \<Rightarrow> error option"
  fsysList :: "RemoteProvider \<Rightarrow> error + RemoteEntry list"
  FormatTime :: "Time \<Rightarrow> string"

definition IsFileBackup :: "string \<Rightarrow> bool" where
  "IsFileBackup name =
     (if \<not> HasSuffix name ''.age'' \<and> \<not> HasSuffix name ''.gz'' then False else True)"

text \<open>
  The loop of \<open>listLocal\<close>.  The error of \<open>entry.Info()\<close> is discarded and \<open>info\<close> is then
  nil, so that \<open>info.ModTime()\<close> panics.
\<close>

fun listLocalLoop :: "CatalogEnv \<Rightarrow> DirEntry list \<Rightarrow> error + string CatalogFile list" where
  "listLocalLoop env [] = Inr []"
| "listLocalLoop env (entry # rest) =
     (if entIsDir entry then listLocalLoop env rest
      else if \<not> IsFileBackup (entName entry) then listLocalLoop env rest
      else
        (case entInfo entry of
           None \<Rightarrow> Inl (Panic ''invalid memory address or nil pointer dereference'')
         | Some info \<Rightarrow>
             (case listLocalLoop env rest of
                Inl err \<Rightarrow> Inl err
              | Inr files \<Rightarrow>
                  Inr (\<lparr>ShortID = GenerateShortID (entName entry) (fiModTime info),
                        catName = entName entry,
                        catSize = fiSize info,
                        catModTime = FormatTime env (fiModTime info),
                        Encrypted = HasSuffix (entName entry) ''.age''\<rparr> # files))))"

definition listLocal :: "CatalogEnv \<Rightarrow> CatalogOptions \<Rightarrow> error + string CatalogFile list" where
  "listLocal env opt =
     (case ReadDir env (backupDir opt) of
        Inl err \<Rightarrow> Inl (Wrap ''read local'' err)
      | Inr entries \<Rightarrow> listLocalLoop env entries)"

definition findProvider :: "CatalogOptions \<Rightarrow> string \<Rightarrow> error + RemoteProvider" where
  "findProvider opt name =
     (case find (\<lambda>p. rpName p = name \<and> rpEnabled p) (providers opt) of
        Some p \<Rightarrow> Inr p
      | None \<Rightarrow> Inl (Err (''provider '' @ name @ '' not found'')))"

definition listRemote :: "CatalogEnv \<Rightarrow> RemoteProvider \<Rightarrow> error + string CatalogFile list" where
  "listRemote env provider =
     (case newProviderErr env provider of
        Some err \<Rightarrow> Inl (Wrap ''remote fs'' err)
      | None \<Rightarrow>
          (case fsysList env provider of
             Inl err \<Rightarrow> Inl (Wrap ''list remote'' err)
           | Inr entries \<Rightarrow>
               Inr (map (\<lambda>entry.
                      \<lparr>ShortID = GenerateShortID (reName entry) (reModTime entry),
                       catName = reName entry,
                       catSize = reSize entry,
                       catModTime = FormatTime env (reModTime entry),
                       Encrypted = HasSuffix (reName entry) ''.age''\<rparr>) entries)))"

definition List :: "CatalogEnv \<Rightarrow> CatalogOptions \<Rightarrow> string \<Rightarrow> error + string CatalogFile list" where
  "List env opt providerName =
     (if providerName = ''local'' then listLocal env opt
      else
        (case findProvider opt providerName of
           Inl err \<Rightarrow> Inl (Wrap ''provider not found'' err)
         | Inr providerCfg \<Rightarrow> listRemote env providerCfg))"

text \<open>
  \<open>listLocal\<close> of the catalog file that declares \<open>Catalog.generateShortID\<close>: the same loop
  with the identifier from the name alone and the time kept as a \<open>time.Time\<close>.
\<close>

fun listLocalLoop_salted :: "DirEntry list \<Rightarrow> error + Time CatalogFile list" where
  "listLocalLoop_salted [] = Inr []"
| "listLocalLoop_salted (entry # rest) =
     (if entIsDir entry then listLocalLoop_salted rest
      else if \<not> IsFileBackup (entName entry) then listLocalLoop_salted rest
      else
        (case entInfo entry of
           None \<Rightarrow> Inl (Panic ''invalid memory address or nil pointer dereference'')
         | Some info \<Rightarrow>
             (case listLocalLoop_salted rest of
                Inl err \<Rightarrow> Inl err
              | Inr files \<Rightarrow>
                  Inr (\<lparr>ShortID = Catalog_generateShortID (entName entry),
                        catName = entName entry,
                        catSize = fiSize info,
                        catModTime = fiModTime info,
                        Encrypted = HasSuffix (entName entry) ''.age''\<rparr> # files))))"

definition listLocal_salted :: "CatalogEnv \<Rightarrow> CatalogOptions \<Rightarrow> error + Time CatalogFile list" where
  "listLocal_salted env opt =
     (case ReadDir env (backupDir opt) of
        Inl err \<Rightarrow> Inl (Wrap ''read local'' err)
      | Inr entries \<Rightarrow> listLocalLoop_salted entries)"

section \<open>Remote naming\<close>

lemma HasSuffix_append: "HasSuffix (xs @ sfx) sfx"
  by (simp add: HasSuffix_def)

lemma HasSuffix_same_length: "length s = length t \<Longrightarrow> HasSuffix (xs @ s) t \<longleftrightarrow> s = t"
  by (simp add: HasSuffix_def)

text \<open>
  C8.  \<open>GetRemoteFileName\<close> yields the database name, then \<open>-v\<close> and the version counter in
  decimal exactly when \<open>MaxVersions > 0\<close>, then the extension \<open>.sql.gz\<close>, then \<open>.age\<close>
  exactly when an encryption key is configured; so the name ends in \<open>.age\<close> if and only if
  a key is configured.  \<open>RemotePathFor\<close> yields the file name alone for an empty path
  prefix and \<open>prefix/fileName\<close> otherwise.
\<close>
theorem remote_naming:
  "GetRemoteFileName opt v =
     Name (optDatabase opt) @ (if MaxVersions opt > 0 then ''-v'' @ fmtInt v else '''')
       @ ''.sql.gz'' @ (if optEncryptionKey opt \<noteq> '''' then ''.age'' else '''')
   \<and> (HasSuffix (GetRemoteFileName opt v) ''.age'' \<longleftrightarrow> optEncryptionKey opt \<noteq> '''')
   \<and> RemotePathFor opt fileName = (if optPath opt = '''' then fileName else optPath opt @ ''/'' @ fileName)"
proof -
  have eq: "GetRemoteFileName opt v =
     Name (optDatabase opt) @ (if MaxVersions opt > 0 then ''-v'' @ fmtInt v else '''')
       @ ''.sql.gz'' @ (if optEncryptionKey opt \<noteq> '''' then ''.age'' else '''')"
    by (simp add: GetRemoteFileName_def HasVersioning_def)
  have sfx: "HasSuffix (GetRemoteFileName opt v) ''.age'' \<longleftrightarrow> optEncryptionKey opt \<noteq> ''''"
  proof (cases "optEncryptionKey opt = ''''")
    case False
    have "HasSuffix ((Name (optDatabase opt) @ (if MaxVersions opt > 0 then ''-v'' @ fmtInt v else '''')
             @ ''.sql.gz'') @ ''.age'') ''.age''"
      by (rule HasSuffix_append)
    with False show ?thesis by (simp add: eq)
  next
    case True
    have "HasSuffix ((Name (optDatabase opt) @ (if MaxVersions opt > 0 then ''-v'' @ fmtInt v else '''')
             @ ''.sq'') @ ''l.gz'') ''.age'' \<longleftrightarrow> ''l.gz'' = ''.age''"
      by (rule HasSuffix_same_length) simp
    with True show ?thesis by (simp add: eq)
  qed
  have "RemotePathFor opt fileName = (if optPath opt = '''' then fileName else optPath opt @ ''/'' @ fileName)"
    by (simp add: RemotePathFor_def)
  with eq sfx show ?thesis by blast
qed

theorem remote_naming_witness:
  "GetRemoteFileName \<lparr>optName = ''s3'', optType = ''s3'', optPath = ''bucket/pg'', MaxVersions = 3,
       optDatabase = \<lparr>Host = ''h'', Port = 5432, Username = ''u'', Password = ''p'', Name = ''shop''\<rparr>,
       optEncryptionKey = ''k''\<rparr> 12 = ''shop-v12.sql.gz.age''
   \<and> RemotePathFor \<lparr>optName = ''s3'', optType = ''s3'', optPath = ''bucket/pg'', MaxVersions = 3,
       optDatabase = \<lparr>Host = ''h'', Port = 5432, Username = ''u'', Password = ''p'', Name = ''shop''\<rparr>,
       optEncryptionKey = ''k''\<rparr> ''shop-v12.sql.gz.age'' = ''bucket/pg/shop-v12.sql.gz.age''"
proof -
  have d: "fmtInt 12 = ''12''" by code_simp
  show ?thesis
    using remote_naming [of "\<lparr>optName = ''s3'', optType = ''s3'', optPath = ''bucket/pg'', MaxVersions = 3,
       optDatabase = \<lparr>Host = ''h'', Port = 5432, Username = ''u'', Password = ''p'', Name = ''shop''\<rparr>,
       optEncryptionKey = ''k''\<rparr>" 12 "''shop-v12.sql.gz.age''"]
    by (simp add: d)
qed

section \<open>The restore lock\<close>

lemma TryLock_cases:
  "TryLock f =
     (if lockHolder f = HeldByThis then ((True, None), f)
      else if flockErr f \<noteq> None then ((False, flockErr f), f)
      else if lockHolder f = HeldByOther then ((False, None), f)
      else ((True, None), f\<lparr>lockHolder := HeldByThis\<rparr>))"
  by (auto simp: TryLock_def split: option.splits)

lemma IsRestoreRunning_True_keeps: "IsRestoreRunning f = (True, f') \<Longrightarrow> f' = f"
  by (auto simp: IsRestoreRunning_def TryLock_cases Unlock_def split: if_splits)

text \<open>
  C9, as the code has it.  The probe makes one \<open>TryLock\<close> attempt and no loop.  When the lock
  is unheld and the attempt reports no error, it returns false and the lock is unheld
  afterwards.  When another holder exists it returns true and the lock state is unchanged.
  When the attempt reports an error it returns true as well, also on an unheld lock, and
  the lock state is unchanged.
\<close>
theorem probe_leaves_lock:
  "(lockHolder f = Unheld \<and> flockErr f = None \<longrightarrow> IsRestoreRunning f = (False, f))
   \<and> (lockHolder f = HeldByOther \<longrightarrow> IsRestoreRunning f = (True, f))
   \<and> (lockHolder f = Unheld \<and> flockErr f \<noteq> None \<longrightarrow> IsRestoreRunning f = (True, f))"
  by (auto simp: IsRestoreRunning_def TryLock_cases Unlock_def)

theorem probe_leaves_lock_witness:
  "IsRestoreRunning \<lparr>lockHolder = Unheld, flockErr = None\<rparr> = (False, \<lparr>lockHolder = Unheld, flockErr = None\<rparr>)
   \<and> IsRestoreRunning \<lparr>lockHolder = HeldByOther, flockErr = None\<rparr>
       = (True, \<lparr>lockHolder = HeldByOther, flockErr = None\<rparr>)
   \<and> IsRestoreRunning \<lparr>lockHolder = Unheld, flockErr = Some (Err ''permission denied'')\<rparr>
       = (True, \<lparr>lockHolder = Unheld, flockErr = Some (Err ''permission denied'')\<rparr>)"
  using probe_leaves_lock [of "\<lparr>lockHolder = Unheld, flockErr = None\<rparr>"]
    probe_leaves_lock [of "\<lparr>lockHolder = HeldByOther, flockErr = None\<rparr>"]
    probe_leaves_lock [of "\<lparr>lockHolder = Unheld, flockErr = Some (Err ''permission denied'')\<rparr>"]
  by simp

text \<open>
  The claim as stated fails: on an unheld lock whose lock file cannot be opened, the probe
  returns true.
\<close>
theorem probe_unheld_counterexample:
  "lockHolder \<lparr>lockHolder = Unheld, flockErr = Some (Err ''permission denied'')\<rparr> = Unheld
   \<and> fst (IsRestoreRunning \<lparr>lockHolder = Unheld, flockErr = Some (Err ''permission denied'')\<rparr>) = True"
  by (simp add: IsRestoreRunning_def TryLock_def)

section \<open>The scheduler\<close>

text \<open>
  C6.  When the probe reports the restore lock held, a fire of the local job returns the
  scheduler and the world as they were: the counter \<open>runningJobs\<close> is unchanged, the file
  system is unchanged (no artifact is created), and the journal is unchanged (no dump
  process is started, the counter was never raised, nothing is notified).
\<close>
theorem fire_skipped_while_restore:
  assumes "fst (IsRestoreRunning (restoreLock w))"
  shows "runLocalBackup opt cd env clk (s, w) = (s, w)
         \<and> runningJobs (fst (runLocalBackup opt cd env clk (s, w))) = runningJobs s
         \<and> fileSystem (snd (runLocalBackup opt cd env clk (s, w))) = fileSystem w
         \<and> journal (snd (runLocalBackup opt cd env clk (s, w))) = journal w"
proof -
  obtain lk where p: "IsRestoreRunning (restoreLock w) = (True, lk)"
    using assms by (cases "IsRestoreRunning (restoreLock w)") auto
  then have "lk = restoreLock w"
    by (rule IsRestoreRunning_True_keeps)
  with p have "runLocalBackup opt cd env clk (s, w) = (s, w)"
    by (simp add: runLocalBackup_def)
  then show ?thesis by simp
qed

theorem fire_skipped_while_restore_witness:
  "runLocalBackup
     \<lparr>GenerateFileName = (\<lambda>t. ''shop-1.sql.gz''), bkOutputDir = ''/backups'',
      bkRetention = \<lparr>RetentionDays = None, MaxBackups = Some 3\<rparr>,
      bkDatabase = \<lparr>Host = ''h'', Port = 5432, Username = ''u'', Password = ''p'', Name = ''shop''\<rparr>,
      bkEncryptionKey = ''''\<rparr>
     \<lparr>gzipBody = (\<lambda>d. d), ageSeal = (\<lambda>k d. d)\<rparr>
     \<lparr>mkdirErr = None, createErr = None, encryptorErr = None, ageWriterErr = None,
      stderrPipeErr = None, startErr = None, stdout = ''dump'', waitErr = None,
      persisted = (\<lambda>b. b)\<rparr>
     \<lparr>Now = 0, AddDate = (\<lambda>t y m d. t + d * 86400 * 1000000000)\<rparr>
     (\<lparr>runningJobs = 0\<rparr>,
      \<lparr>fileSystem = \<lparr>nodes = [], statErr = (\<lambda>p. None), removeErr = (\<lambda>p. None)\<rparr>,
       restoreLock = \<lparr>lockHolder = HeldByOther, flockErr = None\<rparr>,
       journal = []\<rparr>)
   = (\<lparr>runningJobs = 0\<rparr>,
      \<lparr>fileSystem = \<lparr>nodes = [], statErr = (\<lambda>p. None), removeErr = (\<lambda>p. None)\<rparr>,
       restoreLock = \<lparr>lockHolder = HeldByOther, flockErr = None\<rparr>,
       journal = []\<rparr>)"
proof -
  have h: "fst (IsRestoreRunning (restoreLock
      \<lparr>fileSystem = \<lparr>nodes = [], statErr = (\<lambda>p. None), removeErr = (\<lambda>p. None)\<rparr>,
       restoreLock = \<lparr>lockHolder = HeldByOther, flockErr = None\<rparr>,
       journal = []\<rparr>))"
    by (simp add: IsRestoreRunning_def TryLock_def)
  from fire_skipped_while_restore [OF h] show ?thesis by blast
qed

section \<open>One retention policy per run\<close>

lemma validateLocalBackup_both:
  assumes "HasRetentionDays (Retention (LocalBackup c))" and "HasMaxBackups (Retention (LocalBackup c))"
  shows "validateLocalBackup c \<noteq> None"
  using assms by (simp add: validateLocalBackup_def Let_def split: option.splits)

lemma Validate_local_error: "validateLocalBackup c \<noteq> None \<Longrightarrow> Validate vs c \<noteq> None"
  by (auto simp: Validate_def split: option.splits)

lemma Retention_Run_ignores_days:
  assumes "MaxBackups (retRetention opt) = Some m"
  shows "Retention_Run clk (opt\<lparr>retRetention := (retRetention opt)\<lparr>RetentionDays := d\<rparr>\<rparr>) fs
         = Retention_Run clk opt fs"
proof -
  have f: "findBackups (opt\<lparr>retRetention := (retRetention opt)\<lparr>RetentionDays := d\<rparr>\<rparr>) fs = findBackups opt fs"
    by (simp add: findBackups_def)
  show ?thesis
    using assms
    by (simp add: Retention_Run_def ret_HasRetention_def HasMaxBackups_def f
             split: sum.splits prod.splits)
qed

text \<open>
  C7.  A configuration that sets both \<open>RetentionDays\<close> and \<open>MaxBackups\<close> is rejected:
  \<open>validateLocalBackup\<close> and \<open>Validate\<close> return an error, and \<open>loadConfigOrFail\<close> hands no
  configuration on, so no retention run starts from it.  The retention engine consults one
  policy: when \<open>MaxBackups\<close> is set its run is the same whatever \<open>RetentionDays\<close> is, so
  nothing is deleted under the age policy in that run; the age policy is consulted only
  when \<open>MaxBackups\<close> is not set.
\<close>
theorem single_retention_policy:
  "(HasRetentionDays (Retention (LocalBackup c)) \<and> HasMaxBackups (Retention (LocalBackup c))
      \<longrightarrow> validateLocalBackup c \<noteq> None \<and> Validate vs c \<noteq> None \<and> isl (loadConfigOrFail vs y c))
   \<and> (MaxBackups (retRetention opt) \<noteq> None
      \<longrightarrow> Retention_Run clk (opt\<lparr>retRetention := (retRetention opt)\<lparr>RetentionDays := d\<rparr>\<rparr>) fs
          = Retention_Run clk opt fs)"
proof (intro conjI impI)
  assume both: "HasRetentionDays (Retention (LocalBackup c)) \<and> HasMaxBackups (Retention (LocalBackup c))"
  then show v: "validateLocalBackup c \<noteq> None"
    by (simp add: validateLocalBackup_both)
  then show w: "Validate vs c \<noteq> None"
    by (rule Validate_local_error)
  then show "isl (loadConfigOrFail vs y c)"
    by (auto simp: loadConfigOrFail_def split: option.splits)
next
  assume "MaxBackups (retRetention opt) \<noteq> None"
  then obtain m where "MaxBackups (retRetention opt) = Some m" by auto
  then show "Retention_Run clk (opt\<lparr>retRetention := (retRetention opt)\<lparr>RetentionDays := d\<rparr>\<rparr>) fs
          = Retention_Run clk opt fs"
    by (rule Retention_Run_ignores_days)
qed

theorem single_retention_policy_witness:
  "validateLocalBackup
      \<lparr>cfgTimezone = ''UTC'',
       cfgDatabase = \<lparr>Host = ''h'', Port = 5432, Username = ''u'', Password = ''p'', Name = ''shop''\<rparr>,
       LocalBackup = \<lparr>Dir = ''/backups'', Schedule = [''02:00''],
                      Retention = \<lparr>RetentionDays = Some 7, MaxBackups = Some 3\<rparr>, Enabled = True\<rparr>,
       cfgEncryptionKey = ''''\<rparr> \<noteq> None
   \<and> Retention_Run \<lparr>Now = 0, AddDate = (\<lambda>t y m d. t + d * 86400 * 1000000000)\<rparr>
        \<lparr>retRetention = \<lparr>RetentionDays = Some 7, MaxBackups = Some 3\<rparr>,
         retOutputDir = ''/backups'', DatabaseName = ''shop''\<rparr>
        \<lparr>nodes = [], statErr = (\<lambda>p. None), removeErr = (\<lambda>p. None)\<rparr>
     = Retention_Run \<lparr>Now = 0, AddDate = (\<lambda>t y m d. t + d * 86400 * 1000000000)\<rparr>
        \<lparr>retRetention = \<lparr>RetentionDays = None, MaxBackups = Some 3\<rparr>,
         retOutputDir = ''/backups'', DatabaseName = ''shop''\<rparr>
        \<lparr>nodes = [], statErr = (\<lambda>p. None), removeErr = (\<lambda>p. None)\<rparr>"
  using single_retention_policy
    [of "\<lparr>cfgTimezone = ''UTC'',
       cfgDatabase = \<lparr>Host = ''h'', Port = 5432, Username = ''u'', Password = ''p'', Name = ''shop''\<rparr>,
       LocalBackup = \<lparr>Dir = ''/backups'', Schedule = [''02:00''],
                      Retention = \<lparr>RetentionDays = Some 7, MaxBackups = Some 3\<rparr>, Enabled = True\<rparr>,
       cfgEncryptionKey = ''''\<rparr>"
        "\<lparr>validateDatabase = (\<lambda>c. None), validateTimezone = (\<lambda>c. None),
          validateRemoteProviders = (\<lambda>c. None), validateNotification = (\<lambda>c. None)\<rparr>"
        False
        "\<lparr>retRetention = \<lparr>RetentionDays = Some 7, MaxBackups = Some 3\<rparr>,
         retOutputDir = ''/backups'', DatabaseName = ''shop''\<rparr>"
        "\<lparr>Now = 0, AddDate = (\<lambda>t y m d. t + d * 86400 * 1000000000)\<rparr>"
        None
        "\<lparr>nodes = [], statErr = (\<lambda>p. None), removeErr = (\<lambda>p. None)\<rparr>"]
  by (simp add: HasRetentionDays_def HasMaxBackups_def)

section \<open>The deletion loop and the two retention policies\<close>

lemma map_of_filter_neq:
  "map_of (filter (\<lambda>(q, _). q \<noteq> p) xs) k = (if k = p then None else map_of xs k)"
  by (induction xs) auto

lemma exists_after_remove:
  "exists (fs\<lparr>nodes := filter (\<lambda>(q, _). q \<noteq> p) (nodes fs)\<rparr>) k \<longleftrightarrow> exists fs k \<and> k \<noteq> p"
  by (simp add: exists_def map_of_filter_neq)

lemma os_Remove_ok:
  "exists fs p \<Longrightarrow> removeErr fs p = None \<Longrightarrow>
   os_Remove fs p = (None, fs\<lparr>nodes := filter (\<lambda>(q, _). q \<noteq> p) (nodes fs)\<rparr>)"
  by (auto simp: os_Remove_def exists_def)

lemma os_Remove_fail:
  "exists fs p \<Longrightarrow> removeErr fs p = Some e \<Longrightarrow> os_Remove fs p = (Some e, fs)"
  by (auto simp: os_Remove_def exists_def)

text \<open>
  When the paths are distinct and exist, the loop removes exactly the backups whose
  \<open>os.Remove\<close> does not fail, in the order given, and leaves every other entry in place.
\<close>
lemma removeLoop_spec:
  assumes "distinct (map Path bs)" and "\<forall>b\<in>set bs. exists fs (Path b)"
  shows "removeLoop fs bs =
           (filter (\<lambda>b. removeErr fs (Path b) = None) bs,
            fs\<lparr>nodes := filter (\<lambda>(q, _). q \<notin> Path ` set (filter (\<lambda>b. removeErr fs (Path b) = None) bs))
                             (nodes fs)\<rparr>)"
  using assms
proof (induction bs arbitrary: fs)
  case Nil
  then show ?case by simp
next
  case (Cons b bs)
  show ?case
  proof (cases "removeErr fs (Path b)")
    case (Some e)
    have ex: "exists fs (Path b)" using Cons.prems by simp
    have "removeLoop fs (b # bs) = removeLoop fs bs"
      by (simp add: os_Remove_fail [OF ex Some])
    also have "\<dots> = (filter (\<lambda>b. removeErr fs (Path b) = None) bs,
            fs\<lparr>nodes := filter (\<lambda>(q, _). q \<notin> Path ` set (filter (\<lambda>b. removeErr fs (Path b) = None) bs))
                             (nodes fs)\<rparr>)"
      using Cons.prems by (intro Cons.IH) auto
    finally show ?thesis using Some by simp
  next
    case None
    let ?fs' = "fs\<lparr>nodes := filter (\<lambda>(q, _). q \<noteq> Path b) (nodes fs)\<rparr>"
    have ex: "exists fs (Path b)" using Cons.prems by simp
    have d: "distinct (map Path bs)" and nb: "Path b \<notin> Path ` set bs"
      using Cons.prems by auto
    have ex': "\<forall>c\<in>set bs. exists ?fs' (Path c)"
    proof
      fix c assume c: "c \<in> set bs"
      then have "exists fs (Path c)" using Cons.prems by simp
      moreover have "Path c \<noteq> Path b" using nb c by (metis imageI)
      ultimately show "exists ?fs' (Path c)" by (simp add: exists_after_remove)
    qed
    have ih: "removeLoop ?fs' bs =
           (filter (\<lambda>b. removeErr ?fs' (Path b) = None) bs,
            ?fs'\<lparr>nodes := filter (\<lambda>(q, _). q \<notin> Path ` set (filter (\<lambda>b. removeErr ?fs' (Path b) = None) bs))
                             (nodes ?fs')\<rparr>)"
      by (rule Cons.IH [OF d ex'])
    have "removeLoop fs (b # bs) = (b # fst (removeLoop ?fs' bs), snd (removeLoop ?fs' bs))"
      by (simp add: os_Remove_ok [OF ex None] split: prod.splits)
    also have "\<dots> = (b # filter (\<lambda>b. removeErr ?fs' (Path b) = None) bs,
            ?fs'\<lparr>nodes := filter (\<lambda>(q, _). q \<notin> Path ` set (filter (\<lambda>b. removeErr ?fs' (Path b) = None) bs))
                             (nodes ?fs')\<rparr>)"
      by (simp only: ih fst_conv snd_conv)
    also have "\<dots> = (filter (\<lambda>b. removeErr fs (Path b) = None) (b # bs),
            fs\<lparr>nodes := filter (\<lambda>(q, _). q \<notin> Path ` set (filter (\<lambda>b. removeErr fs (Path b) = None) (b # bs)))
                             (nodes fs)\<rparr>)"
      using None by (simp add: split_def)
    finally show ?thesis .
  qed
qed

lemma sorted_take_le_drop:
  assumes "sorted (map f xs)" and "r \<in> set (take k xs)" and "y \<in> set (drop k xs)"
  shows "f r \<le> f y"
proof -
  have "sorted (map f (take k xs) @ map f (drop k xs))"
    using assms(1) by (simp flip: map_append)
  then show ?thesis
    using assms(2,3) by (auto simp: sorted_append)
qed

lemma sliceTo_in_range:
  assumes "0 \<le> high" and "high \<le> int (length backups)" and "length backups \<le> capacity"
  shows "sliceTo backups capacity high = Inr (take (nat high) backups)"
  using assms by (auto simp: sliceTo_def)

text \<open>
  C2, as the code has it.  For \<open>N \<ge> 0\<close> and candidates sorted ascending by modification
  time (with distinct, existing paths, as \<open>findBackups\<close> yields them): removal is attempted
  on the \<open>count - N\<close> oldest candidates, oldest first, and on no other; the returned list
  holds those of them whose \<open>os.Remove\<close> did not fail, in that order, and exactly their
  paths leave the file system.  So if the count is at most \<open>N\<close> nothing is removed; if no
  deletion fails, exactly the \<open>count - N\<close> oldest are removed; the \<open>N\<close> newest are always
  retained, and none of them is older than a removed one.
\<close>
theorem keep_last_n:
  assumes "0 \<le> N" and "length backups \<le> capacity"
    and "distinct (map Path backups)" and "\<forall>b\<in>set backups. exists fs (Path b)"
    and "sorted (map ModTime backups)"
  shows "\<exists>removed fs'.
      cleanByCount fs backups capacity N = Inr (removed, fs')
      \<and> removed = filter (\<lambda>b. removeErr fs (Path b) = None) (take (length backups - nat N) backups)
      \<and> nodes fs' = filter (\<lambda>(q, _). q \<notin> Path ` set removed) (nodes fs)
      \<and> (int (length backups) \<le> N \<longrightarrow> removed = [] \<and> nodes fs' = nodes fs)
      \<and> ((\<forall>b\<in>set (take (length backups - nat N) backups). removeErr fs (Path b) = None)
            \<longrightarrow> removed = take (length backups - nat N) backups
                \<and> int (length removed) = max 0 (int (length backups) - N))
      \<and> (\<forall>b\<in>set (drop (length backups - nat N) backups). exists fs' (Path b))
      \<and> length (drop (length backups - nat N) backups) = min (nat N) (length backups)
      \<and> (\<forall>r\<in>set removed. \<forall>k\<in>set (drop (length backups - nat N) backups). ModTime r \<le> ModTime k)
      \<and> sorted (map ModTime removed)"
proof -
  let ?k = "length backups - nat N"
  let ?toRemove = "take ?k backups"
  let ?removed = "filter (\<lambda>b. removeErr fs (Path b) = None) ?toRemove"
  let ?fs' = "fs\<lparr>nodes := filter (\<lambda>(q, _). q \<notin> Path ` set ?removed) (nodes fs)\<rparr>"
  have d: "distinct (map Path ?toRemove)"
    using assms(3) by (simp add: distinct_take flip: take_map)
  have e: "\<forall>b\<in>set ?toRemove. exists fs (Path b)"
    using assms(4) by (auto dest: in_set_takeD)
  have loop: "removeLoop fs ?toRemove = (?removed, ?fs')"
    by (rule removeLoop_spec [OF d e])
  have run: "cleanByCount fs backups capacity N = Inr (?removed, ?fs')"
  proof (cases "int (length backups) < N")
    case True
    then have "?k = 0" by simp
    with True show ?thesis by (simp add: cleanByCount_def)
  next
    case False
    then have "sliceTo backups capacity (int (length backups) - N) = Inr (take (nat (int (length backups) - N)) backups)"
      using assms(1,2) by (intro sliceTo_in_range) auto
    moreover have "nat (int (length backups) - N) = ?k"
      using assms(1) by (simp add: nat_diff_distrib')
    ultimately show ?thesis
      using False loop by (simp add: cleanByCount_def)
  qed
  have small: "int (length backups) \<le> N \<longrightarrow> ?removed = [] \<and> nodes ?fs' = nodes fs"
  proof
    assume "int (length backups) \<le> N"
    then have "?k = 0" by simp
    then show "?removed = [] \<and> nodes ?fs' = nodes fs" by simp
  qed
  have all: "(\<forall>b\<in>set ?toRemove. removeErr fs (Path b) = None)
            \<longrightarrow> ?removed = ?toRemove \<and> int (length ?removed) = max 0 (int (length backups) - N)"
  proof
    assume a: "\<forall>b\<in>set ?toRemove. removeErr fs (Path b) = None"
    then have "?removed = ?toRemove" by (simp add: filter_id_conv)
    moreover have "int (length ?toRemove) = max 0 (int (length backups) - N)"
      using assms(1) by auto
    ultimately show "?removed = ?toRemove \<and> int (length ?removed) = max 0 (int (length backups) - N)"
      by simp
  qed
  have kept: "\<forall>b\<in>set (drop ?k backups). exists ?fs' (Path b)"
  proof
    fix b assume b: "b \<in> set (drop ?k backups)"
    then have "b \<in> set backups" by (rule in_set_dropD)
    then have ex: "exists fs (Path b)" using assms(4) by simp
    have "distinct (map Path (take ?k backups) @ map Path (drop ?k backups))"
      using assms(3) by (simp flip: map_append)
    then have "Path b \<notin> Path ` set ?toRemove"
      using b by auto
    then have "Path b \<notin> Path ` set ?removed" by auto
    with ex show "exists ?fs' (Path b)"
      by (auto simp: exists_def map_of_eq_None_iff image_iff split: prod.splits) 
  qed
  have len: "length (drop ?k backups) = min (nat N) (length backups)"
    by auto
  have older: "\<forall>r\<in>set ?removed. \<forall>k\<in>set (drop ?k backups). ModTime r \<le> ModTime k"
    using sorted_take_le_drop [OF assms(5)] by auto
  have "sorted (map ModTime ?toRemove)"
    using assms(5) by (simp add: sorted_wrt_take flip: take_map)
  then have srt: "sorted (map ModTime ?removed)"
    by (rule sorted_filter)
  show ?thesis
    using run small all kept len older srt by (intro exI [of _ ?removed] exI [of _ ?fs']) simp
qed

theorem keep_last_n_witness:
  "\<exists>fs'. cleanByCount
       \<lparr>nodes = [(''/b/shop-1.sql.gz'', \<lparr>fiSize = 10, fiModTime = 100, fiIsDir = False\<rparr>),
                 (''/b/shop-2.sql.gz'', \<lparr>fiSize = 20, fiModTime = 200, fiIsDir = False\<rparr>),
                 (''/b/shop-3.sql.gz'', \<lparr>fiSize = 30, fiModTime = 300, fiIsDir = False\<rparr>)],
        statErr = (\<lambda>p. None), removeErr = (\<lambda>p. None)\<rparr>
       [\<lparr>Path = ''/b/shop-1.sql.gz'', ModTime = 100, Size = 10\<rparr>,
        \<lparr>Path = ''/b/shop-2.sql.gz'', ModTime = 200, Size = 20\<rparr>,
        \<lparr>Path = ''/b/shop-3.sql.gz'', ModTime = 300, Size = 30\<rparr>] 3 2
     = Inr ([\<lparr>Path = ''/b/shop-1.sql.gz'', ModTime = 100, Size = 10\<rparr>], fs')
     \<and> nodes fs' = [(''/b/shop-2.sql.gz'', \<lparr>fiSize = 20, fiModTime = 200, fiIsDir = False\<rparr>),
                    (''/b/shop-3.sql.gz'', \<lparr>fiSize = 30, fiModTime = 300, fiIsDir = False\<rparr>)]"
proof -
  let ?fs = "\<lparr>nodes = [(''/b/shop-1.sql.gz'', \<lparr>fiSize = 10, fiModTime = 100, fiIsDir = False\<rparr>),
                 (''/b/shop-2.sql.gz'', \<lparr>fiSize = 20, fiModTime = 200, fiIsDir = False\<rparr>),
                 (''/b/shop-3.sql.gz'', \<lparr>fiSize = 30, fiModTime = 300, fiIsDir = False\<rparr>)],
        statErr = (\<lambda>p. None), removeErr = (\<lambda>p. None)\<rparr>"
  let ?bs = "[\<lparr>Path = ''/b/shop-1.sql.gz'', ModTime = 100, Size = 10\<rparr>,
        \<lparr>Path = ''/b/shop-2.sql.gz'', ModTime = 200, Size = 20\<rparr>,
        \<lparr>Path = ''/b/shop-3.sql.gz'', ModTime = 300, Size = 30\<rparr>]"
  have h1: "(0::int) \<le> 2" by simp
  have h2: "length ?bs \<le> 3" by simp
  have h3: "distinct (map Path ?bs)" by simp
  have h4: "\<forall>b\<in>set ?bs. exists ?fs (Path b)" by (simp add: exists_def)
  have h5: "sorted (map ModTime ?bs)" by simp
  from keep_last_n [OF h1 h2 h3 h4 h5]
  obtain removed fs' where
    r: "cleanByCount ?fs ?bs 3 2 = Inr (removed, fs')"
    and rm: "removed = filter (\<lambda>b. removeErr ?fs (Path b) = None) (take (length ?bs - nat 2) ?bs)"
    and n: "nodes fs' = filter (\<lambda>(q, _). q \<notin> Path ` set removed) (nodes ?fs)"
    by blast
  have "removed = [\<lparr>Path = ''/b/shop-1.sql.gz'', ModTime = 100, Size = 10\<rparr>]"
    using rm by simp
  with r n show ?thesis by simp
qed

text \<open>
  The claim as stated fails: with two candidates and \<open>N = 1\<close>, when the oldest candidate
  cannot be deleted nothing is removed, although the count exceeds \<open>N\<close> by one.
\<close>
theorem keep_last_n_counterexample:
  "cleanByCount
       \<lparr>nodes = [(''/b/shop-1.sql.gz'', \<lparr>fiSize = 10, fiModTime = 100, fiIsDir = False\<rparr>),
                 (''/b/shop-2.sql.gz'', \<lparr>fiSize = 20, fiModTime = 200, fiIsDir = False\<rparr>)],
        statErr = (\<lambda>p. None),
        removeErr = (\<lambda>p. if p = ''/b/shop-1.sql.gz'' then Some (Err ''permission denied'') else None)\<rparr>
       [\<lparr>Path = ''/b/shop-1.sql.gz'', ModTime = 100, Size = 10\<rparr>,
        \<lparr>Path = ''/b/shop-2.sql.gz'', ModTime = 200, Size = 20\<rparr>] 2 1
     = Inr ([],
       \<lparr>nodes = [(''/b/shop-1.sql.gz'', \<lparr>fiSize = 10, fiModTime = 100, fiIsDir = False\<rparr>),
                 (''/b/shop-2.sql.gz'', \<lparr>fiSize = 20, fiModTime = 200, fiIsDir = False\<rparr>)],
        statErr = (\<lambda>p. None),
        removeErr = (\<lambda>p. if p = ''/b/shop-1.sql.gz'' then Some (Err ''permission denied'') else None)\<rparr>)"
  by (simp add: cleanByCount_def sliceTo_def os_Remove_def)

text \<open>
  C3, as the code has it.  With the cutoff \<open>now.AddDate(0, 0, -D)\<close> and candidates with
  distinct, existing paths: removal is attempted on exactly the candidates whose
  modification time is strictly before the cutoff; the returned list holds those of them
  whose \<open>os.Remove\<close> did not fail, and exactly their paths leave the file system.  So if no
  deletion fails the removed set is the set of candidates strictly older than the cutoff;
  a candidate whose time equals the cutoff is retained; if none is strictly older nothing
  is removed.
\<close>
theorem keep_younger_than:
  assumes "distinct (map Path backups)" and "\<forall>b\<in>set backups. exists fs (Path b)"
  shows "\<exists>removed fs'.
      cleanByDays clk fs backups D = Inr (removed, fs')
      \<and> removed = filter (\<lambda>b. removeErr fs (Path b) = None)
                     (filter (\<lambda>b. ModTime b < AddDate clk (Now clk) 0 0 (- D)) backups)
      \<and> nodes fs' = filter (\<lambda>(q, _). q \<notin> Path ` set removed) (nodes fs)
      \<and> ((\<forall>b\<in>set backups. removeErr fs (Path b) = None)
            \<longrightarrow> set removed = {b \<in> set backups. ModTime b < AddDate clk (Now clk) 0 0 (- D)})
      \<and> (\<forall>b\<in>set backups. ModTime b = AddDate clk (Now clk) 0 0 (- D)
            \<longrightarrow> b \<notin> set removed \<and> exists fs' (Path b))
      \<and> ((\<forall>b\<in>set backups. \<not> ModTime b < AddDate clk (Now clk) 0 0 (- D))
            \<longrightarrow> removed = [] \<and> nodes fs' = nodes fs)"
proof -
  let ?cutoff = "AddDate clk (Now clk) 0 0 (- D)"
  let ?old = "filter (\<lambda>b. ModTime b < ?cutoff) backups"
  let ?removed = "filter (\<lambda>b. removeErr fs (Path b) = None) ?old"
  let ?fs' = "fs\<lparr>nodes := filter (\<lambda>(q, _). q \<notin> Path ` set ?removed) (nodes fs)\<rparr>"
  have d: "distinct (map Path ?old)"
    using assms(1) by (rule distinct_map_filter)
  have e: "\<forall>b\<in>set ?old. exists fs (Path b)"
    using assms(2) by simp
  have loop: "removeLoop fs ?old = (?removed, ?fs')"
    by (rule removeLoop_spec [OF d e])
  have run: "cleanByDays clk fs backups D = Inr (?removed, ?fs')"
  proof (cases "?old = []")
    case True
    then show ?thesis by (simp add: cleanByDays_def Before_def Let_def)
  next
    case False
    then show ?thesis using loop by (simp add: cleanByDays_def Before_def Let_def)
  qed
  have all: "(\<forall>b\<in>set backups. removeErr fs (Path b) = None)
            \<longrightarrow> set ?removed = {b \<in> set backups. ModTime b < ?cutoff}"
    by auto
  have boundary: "\<forall>b\<in>set backups. ModTime b = ?cutoff \<longrightarrow> b \<notin> set ?removed \<and> exists ?fs' (Path b)"
  proof (intro ballI impI)
    fix b assume b: "b \<in> set backups" and t: "ModTime b = ?cutoff"
    have nr: "b \<notin> set ?removed" using t by simp
    have "Path b \<notin> Path ` set ?removed"
    proof
      assume "Path b \<in> Path ` set ?removed"
      then obtain c where c: "c \<in> set ?removed" and pc: "Path c = Path b" by auto
      then have "c \<in> set backups" by simp
      with assms(1) b pc have "c = b" by (auto simp: distinct_map inj_on_def)
      with c nr show False by simp
    qed
    moreover have "exists fs (Path b)" using assms(2) b by simp
    ultimately have "exists ?fs' (Path b)"
      by (auto simp: exists_def map_of_eq_None_iff image_iff split: prod.splits)
    with nr show "b \<notin> set ?removed \<and> exists ?fs' (Path b)" by simp
  qed
  have none: "(\<forall>b\<in>set backups. \<not> ModTime b < ?cutoff) \<longrightarrow> ?removed = [] \<and> nodes ?fs' = nodes fs"
  proof
    assume "\<forall>b\<in>set backups. \<not> ModTime b < ?cutoff"
    then have "?old = []" by (simp add: filter_empty_conv)
    then show "?removed = [] \<and> nodes ?fs' = nodes fs" by simp
  qed
  show ?thesis
    using run all boundary none by (intro exI [of _ ?removed] exI [of _ ?fs']) simp
qed

theorem keep_younger_than_witness:
  "\<exists>fs'. cleanByDays \<lparr>Now = 100 * 86400000000000, AddDate = (\<lambda>t y m d. t + d * 86400000000000)\<rparr>
       \<lparr>nodes = [(''/b/shop-1.sql.gz'', \<lparr>fiSize = 10, fiModTime = 90 * 86400000000000, fiIsDir = False\<rparr>),
                 (''/b/shop-2.sql.gz'', \<lparr>fiSize = 20, fiModTime = 93 * 86400000000000, fiIsDir = False\<rparr>),
                 (''/b/shop-3.sql.gz'', \<lparr>fiSize = 30, fiModTime = 99 * 86400000000000, fiIsDir = False\<rparr>)],
        statErr = (\<lambda>p. None), removeErr = (\<lambda>p. None)\<rparr>
       [\<lparr>Path = ''/b/shop-1.sql.gz'', ModTime = 90 * 86400000000000, Size = 10\<rparr>,
        \<lparr>Path = ''/b/shop-2.sql.gz'', ModTime = 93 * 86400000000000, Size = 20\<rparr>,
        \<lparr>Path = ''/b/shop-3.sql.gz'', ModTime = 99 * 86400000000000, Size = 30\<rparr>] 7
     = Inr ([\<lparr>Path = ''/b/shop-1.sql.gz'', ModTime = 90 * 86400000000000, Size = 10\<rparr>], fs')
     \<and> nodes fs' = [(''/b/shop-2.sql.gz'', \<lparr>fiSize = 20, fiModTime = 93 * 86400000000000, fiIsDir = False\<rparr>),
                    (''/b/shop-3.sql.gz'', \<lparr>fiSize = 30, fiModTime = 99 * 86400000000000, fiIsDir = False\<rparr>)]"
proof -
  let ?clk = "\<lparr>Now = 100 * 86400000000000, AddDate = (\<lambda>t y m d. t + d * 86400000000000)\<rparr>"
  let ?fs = "\<lparr>nodes = [(''/b/shop-1.sql.gz'', \<lparr>fiSize = 10, fiModTime = 90 * 86400000000000, fiIsDir = False\<rparr>),
                 (''/b/shop-2.sql.gz'', \<lparr>fiSize = 20, fiModTime = 93 * 86400000000000, fiIsDir = False\<rparr>),
                 (''/b/shop-3.sql.gz'', \<lparr>fiSize = 30, fiModTime = 99 * 86400000000000, fiIsDir = False\<rparr>)],
        statErr = (\<lambda>p. None), removeErr = (\<lambda>p. None)\<rparr>"
  let ?bs = "[\<lparr>Path = ''/b/shop-1.sql.gz'', ModTime = 90 * 86400000000000, Size = 10\<rparr>,
        \<lparr>Path = ''/b/shop-2.sql.gz'', ModTime = 93 * 86400000000000, Size = 20\<rparr>,
        \<lparr>Path = ''/b/shop-3.sql.gz'', ModTime = 99 * 86400000000000, Size = 30\<rparr>]"
  have h1: "distinct (map Path ?bs)" by simp
  have h2: "\<forall>b\<in>set ?bs. exists ?fs (Path b)" by (simp add: exists_def)
  from keep_younger_than [OF h1 h2, of ?clk 7]
  obtain removed fs' where
    r: "cleanByDays ?clk ?fs ?bs 7 = Inr (removed, fs')"
    and rm: "removed = filter (\<lambda>b. removeErr ?fs (Path b) = None)
                     (filter (\<lambda>b. ModTime b < AddDate ?clk (Now ?clk) 0 0 (- 7)) ?bs)"
    and n: "nodes fs' = filter (\<lambda>(q, _). q \<notin> Path ` set removed) (nodes ?fs)"
    by blast
  have "removed = [\<lparr>Path = ''/b/shop-1.sql.gz'', ModTime = 90 * 86400000000000, Size = 10\<rparr>]"
    using rm by simp
  with r n show ?thesis by simp
qed

text \<open>
  The claim as stated fails: a candidate strictly older than the cutoff that cannot be
  deleted is not in the removed set.
\<close>
theorem keep_younger_than_counterexample:
  "cleanByDays \<lparr>Now = 100 * 86400000000000, AddDate = (\<lambda>t y m d. t + d * 86400000000000)\<rparr>
       \<lparr>nodes = [(''/b/shop-1.sql.gz'', \<lparr>fiSize = 10, fiModTime = 90 * 86400000000000, fiIsDir = False\<rparr>)],
        statErr = (\<lambda>p. None),
        removeErr = (\<lambda>p. Some (Err ''permission denied''))\<rparr>
       [\<lparr>Path = ''/b/shop-1.sql.gz'', ModTime = 90 * 86400000000000, Size = 10\<rparr>] 7
     = Inr ([],
       \<lparr>nodes = [(''/b/shop-1.sql.gz'', \<lparr>fiSize = 10, fiModTime = 90 * 86400000000000, fiIsDir = False\<rparr>)],
        statErr = (\<lambda>p. None),
        removeErr = (\<lambda>p. Some (Err ''permission denied''))\<rparr>)
   \<and> (90 * 86400000000000 :: int) < 100 * 86400000000000 + (- 7) * 86400000000000"
  by (simp add: cleanByDays_def Before_def os_Remove_def)

section \<open>The local catalog listing\<close>

lemma IsFileBackup_iff: "IsFileBackup name \<longleftrightarrow> HasSuffix name ''.age'' \<or> HasSuffix name ''.gz''"
  by (simp add: IsFileBackup_def)

lemma listLocalLoop_names:
  "listLocalLoop env entries = Inr files \<Longrightarrow>
   map catName files = map entName (filter (\<lambda>e. \<not> entIsDir e \<and> IsFileBackup (entName e)) entries)
   \<and> (\<forall>f\<in>set files. Encrypted f \<longleftrightarrow> HasSuffix (catName f) ''.age'')"
proof (induction entries arbitrary: files)
  case Nil
  then show ?case by simp
next
  case (Cons entry rest)
  show ?case
  proof (cases "\<not> entIsDir entry \<and> IsFileBackup (entName entry)")
    case False
    then have "listLocalLoop env rest = Inr files"
      using Cons.prems by (auto split: if_splits)
    from Cons.IH [OF this] False show ?thesis by auto
  next
    case True
    then obtain info files' where i: "entInfo entry = Some info"
      and r: "listLocalLoop env rest = Inr files'"
      and f: "files = \<lparr>ShortID = GenerateShortID (entName entry) (fiModTime info),
                        catName = entName entry,
                        catSize = fiSize info,
                        catModTime = FormatTime env (fiModTime info),
                        Encrypted = HasSuffix (entName entry) ''.age''\<rparr> # files'"
      using Cons.prems by (auto split: option.splits sum.splits)
    from Cons.IH [OF r] True f show ?thesis by simp
  qed
qed

lemma listLocalLoop_returns:
  "\<forall>e\<in>set entries. \<not> entIsDir e \<and> IsFileBackup (entName e) \<longrightarrow> entInfo e \<noteq> None \<Longrightarrow>
   \<exists>files. listLocalLoop env entries = Inr files"
  by (induction entries) auto

text \<open>
  C5, as the code has it.  For a listing with source \<open>local\<close> over the entries that
  \<open>os.ReadDir\<close> returns: the listing returns when \<open>Info\<close> succeeds on every entry it keeps;
  the names it returns are, in order, those of the entries that are not directories and
  whose names end in \<open>.gz\<close> or in \<open>.age\<close>, so subdirectories and names with neither suffix
  are excluded; and an entry is marked encrypted exactly when its name ends in \<open>.age\<close>.
\<close>
theorem local_listing:
  assumes "ReadDir env (backupDir opt) = Inr entries"
  shows "((\<forall>e\<in>set entries. \<not> entIsDir e \<and> (HasSuffix (entName e) ''.age'' \<or> HasSuffix (entName e) ''.gz'')
              \<longrightarrow> entInfo e \<noteq> None)
            \<longrightarrow> (\<exists>files. List env opt ''local'' = Inr files))
         \<and> (\<forall>files. List env opt ''local'' = Inr files \<longrightarrow>
               map catName files
                 = map entName (filter (\<lambda>e. \<not> entIsDir e
                                   \<and> (HasSuffix (entName e) ''.age'' \<or> HasSuffix (entName e) ''.gz'')) entries)
               \<and> (\<forall>f\<in>set files. Encrypted f \<longleftrightarrow> HasSuffix (catName f) ''.age''))"
proof -
  have l: "List env opt ''local'' = listLocalLoop env entries"
    using assms by (simp add: List_def listLocal_def)
  show ?thesis
    unfolding l
    using listLocalLoop_returns [of entries env] listLocalLoop_names [of env entries]
    by (simp add: IsFileBackup_iff)
qed

theorem local_listing_witness:
  "\<exists>files. List
      \<lparr>ReadDir = (\<lambda>d. Inr [\<lparr>entName = ''shop-1.sql.gz.age'', entIsDir = False,
                             entInfo = Some \<lparr>fiSize = 10, fiModTime = 100, fiIsDir = False\<rparr>\<rparr>,
                            \<lparr>entName = ''old.sql.gz'', entIsDir = True,
                             entInfo = Some \<lparr>fiSize = 0, fiModTime = 50, fiIsDir = True\<rparr>\<rparr>,
                            \<lparr>entName = ''notes.txt'', entIsDir = False, entInfo = None\<rparr>]),
       newProviderErr = (\<lambda>p. None), fsysList = (\<lambda>p. Inr []), FormatTime = fmtInt\<rparr>
      \<lparr>backupDir = ''/backups'', providers = []\<rparr> ''local'' = Inr files
    \<and> map catName files = [''shop-1.sql.gz.age'']
    \<and> map Encrypted files = [True]"
proof -
  let ?entries = "[\<lparr>entName = ''shop-1.sql.gz.age'', entIsDir = False,
                             entInfo = Some \<lparr>fiSize = 10, fiModTime = 100, fiIsDir = False\<rparr>\<rparr>,
                            \<lparr>entName = ''old.sql.gz'', entIsDir = True,
                             entInfo = Some \<lparr>fiSize = 0, fiModTime = 50, fiIsDir = True\<rparr>\<rparr>,
                            \<lparr>entName = ''notes.txt'', entIsDir = False, entInfo = None\<rparr>]"
  let ?env = "\<lparr>ReadDir = (\<lambda>d. Inr ?entries),
       newProviderErr = (\<lambda>p. None), fsysList = (\<lambda>p. Inr []), FormatTime = fmtInt\<rparr>"
  let ?opt = "\<lparr>backupDir = ''/backups'', providers = []\<rparr>"
  have h: "ReadDir ?env (backupDir ?opt) = Inr ?entries" by simp
  have sfx: "HasSuffix ''shop-1.sql.gz.age'' ''.age''" "\<not> HasSuffix ''notes.txt'' ''.age''"
    "\<not> HasSuffix ''notes.txt'' ''.gz''"
    by (simp_all add: HasSuffix_def)
  note t = local_listing [OF h]
  have "\<exists>files. List ?env ?opt ''local'' = Inr files"
    using t sfx by simp
  then obtain files where f: "List ?env ?opt ''local'' = Inr files" ..
  have b: "\<forall>files. List ?env ?opt ''local'' = Inr files \<longrightarrow>
             map catName files = [''shop-1.sql.gz.age'']
             \<and> (\<forall>f\<in>set files. Encrypted f \<longleftrightarrow> HasSuffix (catName f) ''.age'')"
    using t sfx by simp
  from b f have n: "map catName files = [''shop-1.sql.gz.age'']"
    and e: "\<forall>f\<in>set files. Encrypted f \<longleftrightarrow> HasSuffix (catName f) ''.age''"
    by simp_all
  from n obtain x where x: "files = [x]" and cx: "catName x = ''shop-1.sql.gz.age''"
    by (cases files) auto
  from e x cx sfx(1) have "map Encrypted files = [True]" by simp
  with f n show ?thesis
    by (intro exI [of _ files] conjI)
qed

text \<open>
  The claim as stated fails: a file whose name ends in \<open>.gz\<close> but carries neither
  \<open>.sql.gz\<close> nor \<open>.sql.gz.age\<close> is listed.
\<close>
theorem local_listing_counterexample:
  "(case List
      \<lparr>ReadDir = (\<lambda>d. Inr [\<lparr>entName = ''notes.gz'', entIsDir = False,
                             entInfo = Some \<lparr>fiSize = 10, fiModTime = 100, fiIsDir = False\<rparr>\<rparr>]),
       newProviderErr = (\<lambda>p. None), fsysList = (\<lambda>p. Inr []), FormatTime = fmtInt\<rparr>
      \<lparr>backupDir = ''/backups'', providers = []\<rparr> ''local'' of
      Inl err \<Rightarrow> []
    | Inr files \<Rightarrow> map catName files) = [''notes.gz'']
   \<and> \<not> HasSuffix ''notes.gz'' ''.sql.gz'' \<and> \<not> HasSuffix ''notes.gz'' ''.sql.gz.age''"
  by (simp add: List_def listLocal_def IsFileBackup_def HasSuffix_def)

section \<open>Short identifiers\<close>
















section \<open>The backup producer\<close>

lemma map_of_putFile: "map_of (nodes (putFile fs p fi)) p = Some fi"
  by (simp add: putFile_def map_of_filter_neq map_add_def)

lemma os_Stat_putFile: "statErr fs p = None \<Longrightarrow> os_Stat (putFile fs p fi) p = Inr fi"
  by (simp add: os_Stat_def map_of_putFile) (simp add: putFile_def)

lemma filter_putFile:
  "filter (\<lambda>(q, _). q \<noteq> p) (nodes (putFile fs p fi)) = filter (\<lambda>(q, _). q \<noteq> p) (nodes fs)"
  by (simp add: putFile_def split_def)

lemma os_Remove_putFile:
  "os_Remove (putFile fs p fi) p =
     (case removeErr fs p of
        Some e \<Rightarrow> (Some e, putFile fs p fi)
      | None \<Rightarrow> (None, fs\<lparr>nodes := filter (\<lambda>(q, _). q \<noteq> p) (nodes fs)\<rparr>))"
proof -
  have r: "removeErr (putFile fs p fi) = removeErr fs"
    by (simp add: putFile_def)
  have u: "putFile fs p fi\<lparr>nodes := filter (\<lambda>(q, _). q \<noteq> p) (nodes (putFile fs p fi))\<rparr>
           = fs\<lparr>nodes := filter (\<lambda>(q, _). q \<noteq> p) (nodes fs)\<rparr>"
    unfolding filter_putFile by (simp add: putFile_def)
  show ?thesis
    unfolding os_Remove_def map_of_putFile r
    by (simp add: u split: option.splits)
qed

lemma not_exists_removed: "\<not> exists (fs\<lparr>nodes := filter (\<lambda>(q, _). q \<noteq> p) (nodes fs)\<rparr>) p"
  by (simp add: exists_after_remove)

lemma exists_putFile: "exists (putFile fs p fi) p"
  by (simp add: exists_def map_of_putFile)

text \<open>
  The result of \<open>executePgDump\<close> once the dump process has been started: it depends on
  the result of \<open>cmd.Wait\<close> and, on its failure, on whether the artifact can be removed.
\<close>
lemma executePgDump_started:
  assumes "createErr env = None"
    and "IsEncryptEnabled opt \<longrightarrow> encryptorErr env = None \<and> ageWriterErr env = None"
    and "stderrPipeErr env = None" and "startErr env = None"
  shows "executePgDump opt cd env now fs f =
     (case waitErr env of
        Some err \<Rightarrow>
          (Some (Wrap ''pg_dump failed'' err),
           (case removeErr fs f of
              None \<Rightarrow> fs\<lparr>nodes := filter (\<lambda>(q, _). q \<noteq> f) (nodes fs)\<rparr>
            | Some rmErr \<Rightarrow>
                putFile fs f \<lparr>fiSize = int (length (persisted env (writerChain opt cd f now (stdout env)))),
                              fiModTime = now, fiIsDir = False\<rparr>),
           Some (pgDumpArgs opt))
      | None \<Rightarrow>
          (None,
           putFile fs f \<lparr>fiSize = int (length (persisted env (writerChain opt cd f now (stdout env)))),
                         fiModTime = now, fiIsDir = False\<rparr>,
           Some (pgDumpArgs opt)))"
  using assms
  by (simp add: executePgDump_def Let_def os_Remove_putFile split: option.splits)

text \<open>
  C1, as the code has it by design.  Let \<open>f\<close> be the artifact path that \<open>Run\<close> computes, and
  let the dump process have been started.  If \<open>cmd.Wait\<close> returns an error (a non-zero
  exit), \<open>Run\<close> returns that error wrapped, after \<open>os.Remove(f)\<close> whose own error it discards:
  when the removal succeeds no artifact remains at \<open>f\<close> and the other files are as before,
  and when the removal fails the artifact remains.
\<close>
theorem dump_failure_discards_artifact:
  fixes opt :: BackupOptions and clk :: Clock
  defines "f \<equiv> Join (bkOutputDir opt)
                   (if IsEncryptEnabled opt then GenerateFileName opt (Now clk) @ ''.age''
                    else GenerateFileName opt (Now clk))"
  assumes "mkdirErr env = None" and "createErr env = None"
    and "IsEncryptEnabled opt \<longrightarrow> encryptorErr env = None \<and> ageWriterErr env = None"
    and "stderrPipeErr env = None" and "startErr env = None"
    and "waitErr env = Some e"
  shows "\<exists>fs' started.
           Backup_Run opt cd env clk fs
             = (Inl (Wrap ''pg_dump failed'' (Wrap ''pg_dump failed'' e)), fs', started)
           \<and> (removeErr fs f = None \<longrightarrow>
                 \<not> exists fs' f \<and> nodes fs' = filter (\<lambda>(q, _). q \<noteq> f) (nodes fs))
           \<and> (removeErr fs f \<noteq> None \<longrightarrow> exists fs' f)"
proof -
  note ex = executePgDump_started [OF assms(3-6), of cd "Now clk" fs f]
  show ?thesis
  proof (cases "removeErr fs f")
    case None
    with assms(2,7) ex show ?thesis
      by (simp add: Backup_Run_def Let_def f_def [symmetric] not_exists_removed)
  next
    case (Some r)
    with assms(2,7) ex show ?thesis
      by (simp add: Backup_Run_def Let_def f_def [symmetric] exists_putFile)
  qed
qed

theorem dump_failure_discards_artifact_witness:
  "\<exists>fs' started.
      Backup_Run
        \<lparr>GenerateFileName = (\<lambda>t. ''shop-1.sql.gz''), bkOutputDir = ''/backups'',
         bkRetention = \<lparr>RetentionDays = None, MaxBackups = None\<rparr>,
         bkDatabase = \<lparr>Host = ''h'', Port = 5432, Username = ''u'', Password = ''p'', Name = ''shop''\<rparr>,
         bkEncryptionKey = ''''\<rparr>
        \<lparr>gzipBody = (\<lambda>d. d), ageSeal = (\<lambda>k d. d)\<rparr>
        \<lparr>mkdirErr = None, createErr = None, encryptorErr = None, ageWriterErr = None,
         stderrPipeErr = None, startErr = None, stdout = ''partial'',
         waitErr = Some (Err ''exit status 1''), persisted = (\<lambda>b. b)\<rparr>
        \<lparr>Now = 0, AddDate = (\<lambda>t y m d. t + d * 86400000000000)\<rparr>
        \<lparr>nodes = [(''/backups/shop-0.sql.gz'', \<lparr>fiSize = 10, fiModTime = 0, fiIsDir = False\<rparr>)],
         statErr = (\<lambda>p. None), removeErr = (\<lambda>p. None)\<rparr>
      = (Inl (Wrap ''pg_dump failed'' (Wrap ''pg_dump failed'' (Err ''exit status 1''))), fs', started)
      \<and> \<not> exists fs' ''/backups/shop-1.sql.gz''
      \<and> map fst (nodes fs') = [''/backups/shop-0.sql.gz'']"
proof -
  let ?opt = "\<lparr>GenerateFileName = (\<lambda>t. ''shop-1.sql.gz''), bkOutputDir = ''/backups'',
         bkRetention = \<lparr>RetentionDays = None, MaxBackups = None\<rparr>,
         bkDatabase = \<lparr>Host = ''h'', Port = 5432, Username = ''u'', Password = ''p'', Name = ''shop''\<rparr>,
         bkEncryptionKey = ''''\<rparr>"
  let ?cd = "\<lparr>gzipBody = (\<lambda>d. d), ageSeal = (\<lambda>k d. d)\<rparr>"
  let ?env = "\<lparr>mkdirErr = None, createErr = None, encryptorErr = None, ageWriterErr = None,
         stderrPipeErr = None, startErr = None, stdout = ''partial'',
         waitErr = Some (Err ''exit status 1''), persisted = (\<lambda>b. b)\<rparr>"
  let ?clk = "\<lparr>Now = 0, AddDate = (\<lambda>t y m d. t + d * 86400000000000)\<rparr>"
  let ?fs = "\<lparr>nodes = [(''/backups/shop-0.sql.gz'', \<lparr>fiSize = 10, fiModTime = 0, fiIsDir = False\<rparr>)],
         statErr = (\<lambda>p. None), removeErr = (\<lambda>p. None)\<rparr>"
  have j: "Join ''/backups'' ''shop-1.sql.gz'' = ''/backups/shop-1.sql.gz''"
    by code_simp
  have enc: "\<not> IsEncryptEnabled ?opt" by (simp add: IsEncryptEnabled_def)
  from dump_failure_discards_artifact [of ?env ?opt "Err ''exit status 1''" ?cd ?clk ?fs] enc
  obtain fs' started where
    r: "Backup_Run ?opt ?cd ?env ?clk ?fs
          = (Inl (Wrap ''pg_dump failed'' (Wrap ''pg_dump failed'' (Err ''exit status 1''))), fs', started)"
    and e: "\<not> exists fs' ''/backups/shop-1.sql.gz''"
    and n: "nodes fs' = filter (\<lambda>(q, _). q \<noteq> ''/backups/shop-1.sql.gz'') (nodes ?fs)"
    by (auto simp: j)
  from n have m: "map fst (nodes fs') = [''/backups/shop-0.sql.gz'']" by simp
  show ?thesis
    by (rule exI [of _ fs'], rule exI [of _ started], rule conjI [OF r conjI [OF e m]])
qed

text \<open>
  The claim as stated fails: when the dump process exits non-zero and the artifact cannot
  be removed, \<open>Run\<close> returns the wrapped error and the artifact remains on disk, because
  the error of \<open>os.Remove\<close> is discarded.  (Here \<open>gzipBody\<close> is the body of the gzip member
  of the empty input, the only input it gets: an empty stored block, CRC-32 zero and size
  zero.)
\<close>
theorem dump_failure_counterexample:
  "(case Backup_Run
        \<lparr>GenerateFileName = (\<lambda>t. ''shop-1.sql.gz''), bkOutputDir = ''/backups'',
         bkRetention = \<lparr>RetentionDays = None, MaxBackups = None\<rparr>,
         bkDatabase = \<lparr>Host = ''h'', Port = 5432, Username = ''u'', Password = ''p'', Name = ''shop''\<rparr>,
         bkEncryptionKey = ''''\<rparr>
        \<lparr>gzipBody = (\<lambda>d. [CHR 0x01, CHR 0x00, CHR 0x00, CHR 0xFF, CHR 0xFF, CHR 0x00, CHR 0x00, CHR 0x00, CHR 0x00, CHR 0x00, CHR 0x00, CHR 0x00, CHR 0x00]),
         ageSeal = (\<lambda>k d. d)\<rparr>
        \<lparr>mkdirErr = None, createErr = None, encryptorErr = None, ageWriterErr = None,
         stderrPipeErr = None, startErr = None, stdout = '''',
         waitErr = Some (Err ''exit status 1''), persisted = (\<lambda>b. b)\<rparr>
        \<lparr>Now = 0, AddDate = (\<lambda>t y m d. t + d * 86400000000000)\<rparr>
        \<lparr>nodes = [], statErr = (\<lambda>p. None), removeErr = (\<lambda>p. Some (Err ''operation not permitted''))\<rparr> of
      (result, fs', started) \<Rightarrow> (result, map fst (nodes fs')))
     = (Inl (Wrap ''pg_dump failed'' (Wrap ''pg_dump failed'' (Err ''exit status 1''))),
        [''/backups/shop-1.sql.gz''])"
proof -
  have j: "Join ''/backups'' ''shop-1.sql.gz'' = ''/backups/shop-1.sql.gz''"
    by code_simp
  have b: "Base ''/backups/shop-1.sql.gz'' = ''shop-1.sql.gz''"
    by code_simp
  have l: "latin1 ''shop-1.sql.gz'' = Some ''shop-1.sql.gz''"
    by code_simp
  show ?thesis
    by (simp add: Backup_Run_def executePgDump_def writerChain_def gzipStream_def gzipHeader_def
          le32_def IsEncryptEnabled_def bk_HasRetention_def HasMaxBackups_def HasRetentionDays_def
          putFile_def os_Stat_def os_Remove_def Let_def j b l)
qed

subsection \<open>A dump process that writes nothing\<close>

text \<open>
  \<open>Run\<close> tests the size of the artifact file, not the number of bytes the dump process
  wrote.  Whatever the compressor writes, the closed gzip stream begins with the ten-byte
  header.  So without encryption and without a retention policy, when every write
  reaches the disk, the test \<open>fileInfo.Size() == 0\<close> of \<open>Run\<close> never holds for a started
  dump process that reports success, also when the process wrote nothing.
\<close>
lemma gzipStream_nonempty: "gzipStream cd name modTime data \<noteq> []"
  by (simp add: gzipStream_def gzipHeader_def)

lemma unencrypted_dump_succeeds:
  assumes "\<not> IsEncryptEnabled opt" and "\<not> bk_HasRetention opt"
    and "mkdirErr env = None" and "createErr env = None"
    and "stderrPipeErr env = None" and "startErr env = None" and "waitErr env = None"
    and "persisted env = (\<lambda>bytes. bytes)"
    and "statErr fs (Join (bkOutputDir opt) (GenerateFileName opt (Now clk))) = None"
  shows "fst (Backup_Run opt cd env clk fs) = Inr (Join (bkOutputDir opt) (GenerateFileName opt (Now clk)))"
proof -
  let ?f = "Join (bkOutputDir opt) (GenerateFileName opt (Now clk))"
  let ?fi = "\<lparr>fiSize = int (length (persisted env (writerChain opt cd ?f (Now clk) (stdout env)))),
              fiModTime = Now clk, fiIsDir = False\<rparr>"
  have e: "executePgDump opt cd env (Now clk) fs ?f = (None, putFile fs ?f ?fi, Some (pgDumpArgs opt))"
    using assms(1,4-7) executePgDump_started [of env opt cd "Now clk" fs ?f] by simp
  have st: "os_Stat (putFile fs ?f ?fi) ?f = Inr ?fi"
    using assms(9) by (rule os_Stat_putFile)
  have "writerChain opt cd ?f (Now clk) (stdout env) \<noteq> []"
    using assms(1) by (simp add: writerChain_def Let_def gzipStream_nonempty)
  then have sz: "fiSize ?fi \<noteq> 0"
    using assms(8) by simp
  show ?thesis
    using assms(1,2,3) e st sz
    by (simp add: Backup_Run_def Let_def split: prod.splits)
qed

text \<open>
  A dump process that writes zero bytes and reports success: the artifact holds the gzip
  header and trailer, and \<open>Run\<close> returns its path with the artifact on disk.
\<close>
lemma empty_dump_reported_success:
  "(case Backup_Run
        \<lparr>GenerateFileName = (\<lambda>t. ''shop-1.sql.gz''), bkOutputDir = ''/backups'',
         bkRetention = \<lparr>RetentionDays = None, MaxBackups = None\<rparr>,
         bkDatabase = \<lparr>Host = ''h'', Port = 5432, Username = ''u'', Password = ''p'', Name = ''shop''\<rparr>,
         bkEncryptionKey = ''''\<rparr>
        \<lparr>gzipBody = (\<lambda>d. [CHR 0x01, CHR 0x00, CHR 0x00, CHR 0xFF, CHR 0xFF, CHR 0x00, CHR 0x00, CHR 0x00, CHR 0x00, CHR 0x00, CHR 0x00, CHR 0x00, CHR 0x00]),
         ageSeal = (\<lambda>k d. d)\<rparr>
        \<lparr>mkdirErr = None, createErr = None, encryptorErr = None, ageWriterErr = None,
         stderrPipeErr = None, startErr = None, stdout = '''',
         waitErr = None, persisted = (\<lambda>b. b)\<rparr>
        \<lparr>Now = 0, AddDate = (\<lambda>t y m d. t + d * 86400000000000)\<rparr>
        \<lparr>nodes = [], statErr = (\<lambda>p. None), removeErr = (\<lambda>p. None)\<rparr> of
      (result, fs', started) \<Rightarrow> (result, map (\<lambda>(p, fi). (p, fiSize fi)) (nodes fs')))
     = (Inr ''/backups/shop-1.sql.gz'', [(''/backups/shop-1.sql.gz'', 37)])"
proof -
  have j: "Join ''/backups'' ''shop-1.sql.gz'' = ''/backups/shop-1.sql.gz''"
    by code_simp
  have b: "Base ''/backups/shop-1.sql.gz'' = ''shop-1.sql.gz''"
    by code_simp
  have l: "latin1 ''shop-1.sql.gz'' = Some ''shop-1.sql.gz''"
    by code_simp
  show ?thesis
    by (simp add: Backup_Run_def executePgDump_def writerChain_def gzipStream_def gzipHeader_def
          le32_def IsEncryptEnabled_def bk_HasRetention_def HasMaxBackups_def HasRetentionDays_def
          putFile_def os_Stat_def os_Remove_def Let_def j b l)
qed

section \<open>What a retention run can delete\<close>

lemma os_Remove_cases:
  assumes "os_Remove fs p = (r, fs1)"
  shows "(r = None \<and> exists fs p \<and> fs1 = fs\<lparr>nodes := filter (\<lambda>(q, _). q \<noteq> p) (nodes fs)\<rparr>)
         \<or> (r \<noteq> None \<and> fs1 = fs)"
  using assms by (auto simp: os_Remove_def exists_def split: option.splits)

lemma exists_filter_nodes:
  "exists (fs\<lparr>nodes := filter (\<lambda>(q, _). q \<noteq> p) (nodes fs)\<rparr>) k \<Longrightarrow> exists fs k"
  by (simp add: exists_after_remove)

text \<open>
  The deletion loop, with no assumption on its input: what it reports removed is part of
  its input and existed, and exactly the reported paths leave the file system.
\<close>
lemma removeLoop_nodes:
  "removeLoop fs bs = (removed, fs') \<Longrightarrow>
     set removed \<subseteq> set bs
     \<and> (\<forall>b\<in>set removed. exists fs (Path b))
     \<and> nodes fs' = filter (\<lambda>(q, _). q \<notin> Path ` set removed) (nodes fs)"
proof (induction bs arbitrary: fs removed fs')
  case Nil
  then show ?case by simp
next
  case (Cons b bs)
  obtain r fs1 where rm: "os_Remove fs (Path b) = (r, fs1)"
    by (cases "os_Remove fs (Path b)") auto
  show ?case
  proof (cases r)
    case (Some e)
    with rm have "fs1 = fs" using os_Remove_cases [OF rm] by simp
    with rm Some Cons.prems have "removeLoop fs bs = (removed, fs')" by simp
    from Cons.IH [OF this] show ?thesis by auto
  next
    case None
    with os_Remove_cases [OF rm] have ex: "exists fs (Path b)"
      and fs1: "fs1 = fs\<lparr>nodes := filter (\<lambda>(q, _). q \<noteq> Path b) (nodes fs)\<rparr>"
      by simp_all
    obtain removed1 fs2 where l: "removeLoop fs1 bs = (removed1, fs2)"
      by (cases "removeLoop fs1 bs") auto
    with rm None Cons.prems have r: "removed = b # removed1" and f: "fs' = fs2"
      by simp_all
    from Cons.IH [OF l] have s: "set removed1 \<subseteq> set bs"
      and e1: "\<forall>c\<in>set removed1. exists fs1 (Path c)"
      and n: "nodes fs2 = filter (\<lambda>(q, _). q \<notin> Path ` set removed1) (nodes fs1)"
      by simp_all
    have e: "\<forall>c\<in>set removed. exists fs (Path c)"
      using ex e1 r fs1 by (auto dest: exists_filter_nodes)
    have "nodes fs' = filter (\<lambda>(q, _). q \<notin> Path ` set removed) (nodes fs)"
      using n r f fs1 by (simp add: split_def)
    with s e r show ?thesis by auto
  qed
qed

lemma statMatches_paths:
  "b \<in> set (statMatches fs ms) \<Longrightarrow> Path b \<in> set ms"
  by (induction ms) (auto split: sum.splits)

lemma statMatches_length: "length (statMatches fs ms) \<le> length ms"
  by (induction ms) (auto split: sum.splits)

lemma statMatches_distinct: "distinct ms \<Longrightarrow> distinct (map Path (statMatches fs ms))"
  by (induction ms) (auto split: sum.splits dest: statMatches_paths)

text \<open>
  The candidates of \<open>findBackups\<close>: existing paths that match the pattern, sorted by
  modification time, no more of them than the capacity; their paths are distinct when
  those of the file system are.
\<close>
lemma findBackups_candidates:
  assumes "findBackups opt fs = Inr (backups, capacity)"
  shows "\<exists>ts. parsePat (Join (retOutputDir opt) (DatabaseName opt @ ''-*.sql.gz*'')) = Some ts
            \<and> (\<forall>b\<in>set backups. matchToks ts (Path b) \<and> exists fs (Path b))
            \<and> sorted (map ModTime backups)
            \<and> length backups \<le> capacity
            \<and> (distinct (map fst (nodes fs)) \<longrightarrow> distinct (map Path backups))"
proof -
  let ?pattern = "Join (retOutputDir opt) (DatabaseName opt @ ''-*.sql.gz*'')"
  from assms obtain ts where ts: "parsePat ?pattern = Some ts"
    by (auto simp: findBackups_def Glob_def Let_def split: option.splits)
  let ?matches = "filter (matchToks ts) (map fst (nodes fs))"
  from assms ts have b: "backups = sort_key ModTime (statMatches fs ?matches)"
    and c: "capacity = length ?matches"
    by (auto simp: findBackups_def Glob_def Let_def)
  have m: "\<forall>b\<in>set backups. matchToks ts (Path b) \<and> exists fs (Path b)"
  proof
    fix x assume "x \<in> set backups"
    then have "Path x \<in> set ?matches"
      using b by (auto dest: statMatches_paths)
    then show "matchToks ts (Path x) \<and> exists fs (Path x)"
      by (auto simp: exists_def map_of_eq_None_iff)
  qed
  have s: "sorted (map ModTime backups)"
    unfolding b by simp
  have l: "length backups \<le> capacity"
    using statMatches_length [of fs ?matches] by (simp add: b c)
  have d: "distinct (map fst (nodes fs)) \<longrightarrow> distinct (map Path backups)"
  proof
    assume "distinct (map fst (nodes fs))"
    then have "distinct ?matches" by simp
    then have "distinct (map Path (statMatches fs ?matches))"
      by (rule statMatches_distinct)
    then show "distinct (map Path backups)"
      unfolding b by (simp add: distinct_map)
  qed
  from ts m s l d show ?thesis by blast
qed

lemma cleanByCount_removed:
  assumes "cleanByCount fs backups capacity m = Inr (removed, fs')"
    and "0 \<le> m" and "length backups \<le> capacity"
  shows "set removed \<subseteq> set backups
         \<and> nodes fs' = filter (\<lambda>(q, _). q \<notin> Path ` set removed) (nodes fs)"
proof (cases "int (length backups) < m")
  case True
  with assms(1) show ?thesis by (simp add: cleanByCount_def)
next
  case False
  then have "sliceTo backups capacity (int (length backups) - m)
               = Inr (take (nat (int (length backups) - m)) backups)"
    using assms(2,3) by (intro sliceTo_in_range) auto
  with False assms(1) have "removeLoop fs (take (nat (int (length backups) - m)) backups) = (removed, fs')"
    by (simp add: cleanByCount_def)
  from removeLoop_nodes [OF this] show ?thesis
    by (auto dest: in_set_takeD)
qed

lemma cleanByDays_removed:
  assumes "cleanByDays clk fs backups d = Inr (removed, fs')"
  shows "set removed \<subseteq> set backups
         \<and> nodes fs' = filter (\<lambda>(q, _). q \<notin> Path ` set removed) (nodes fs)"
proof (cases "filter (\<lambda>backup. Before (ModTime backup) (AddDate clk (Now clk) 0 0 (- d))) backups = []")
  case True
  with assms show ?thesis by (simp add: cleanByDays_def Let_def)
next
  case False
  with assms have "removeLoop fs (filter (\<lambda>backup. Before (ModTime backup) (AddDate clk (Now clk) 0 0 (- d))) backups)
                     = (removed, fs')"
    by (simp add: cleanByDays_def Let_def)
  from removeLoop_nodes [OF this] show ?thesis by auto
qed

text \<open>
  Whatever a retention run removes, under a policy with \<open>MaxBackups \<ge> 0\<close>, is an existing
  path that matches the pattern built from the output directory and the database name,
  and exactly the removed paths leave the file system.
\<close>
lemma Retention_Run_removed:
  assumes "Retention_Run clk opt fs = (err, removed, fs')"
    and "\<forall>m. MaxBackups (retRetention opt) = Some m \<longrightarrow> 0 \<le> m"
  shows "(\<forall>b\<in>set removed.
            \<exists>ts. parsePat (Join (retOutputDir opt) (DatabaseName opt @ ''-*.sql.gz*'')) = Some ts
                 \<and> matchToks ts (Path b) \<and> exists fs (Path b))
         \<and> nodes fs' = filter (\<lambda>(q, _). q \<notin> Path ` set removed) (nodes fs)"
proof (cases "removed = [] \<and> fs' = fs")
  case True
  then show ?thesis by simp
next
  case False
  with assms(1) obtain backups capacity where fb: "findBackups opt fs = Inr (backups, capacity)"
    by (auto simp: Retention_Run_def split: if_splits sum.splits)
  from findBackups_candidates [OF fb] obtain ts where
    ts: "parsePat (Join (retOutputDir opt) (DatabaseName opt @ ''-*.sql.gz*'')) = Some ts"
    and m: "\<forall>b\<in>set backups. matchToks ts (Path b) \<and> exists fs (Path b)"
    and l: "length backups \<le> capacity"
    by blast
  have "set removed \<subseteq> set backups
         \<and> nodes fs' = filter (\<lambda>(q, _). q \<notin> Path ` set removed) (nodes fs)"
  proof (cases "MaxBackups (retRetention opt)")
    case (Some maxBackups)
    with assms(2) have nn: "0 \<le> maxBackups" by simp
    from False assms(1) fb Some have "cleanByCount fs backups capacity maxBackups = Inr (removed, fs')"
      by (auto simp: Retention_Run_def split: if_splits sum.splits error.splits)
    from cleanByCount_removed [OF this nn l] show ?thesis .
  next
    case None
    with False assms(1) fb obtain d where "cleanByDays clk fs backups d = Inr (removed, fs')"
      by (auto simp: Retention_Run_def split: if_splits sum.splits option.splits error.splits)
    from cleanByDays_removed [OF this] show ?thesis .
  qed
  with ts m show ?thesis by blast
qed


subsection \<open>The pattern of a directory and a database name without pattern characters\<close>

lemma scanTok_plain:
  "c \<notin> {CHR ''*'', CHR ''?'', CHR ''['', CHR 0x5C} \<Longrightarrow> scanTok (c # cs) = Some (TLit c, cs)"
  by (simp add: scanTok_def)

lemma parsePatN_plain:
  "\<forall>c\<in>set l. c \<notin> {CHR ''*'', CHR ''?'', CHR ''['', CHR 0x5C} \<Longrightarrow>
   parsePatN (length l + k) (l @ rest) = map_option (\<lambda>ts. map TLit l @ ts) (parsePatN k rest)"
proof (induction l)
  case Nil
  then show ?case by (simp add: option.map_ident)
next
  case (Cons c l)
  then show ?case
    by (simp add: scanTok_plain option.map_comp comp_def)
qed

lemma parsePat_backups:
  assumes "\<forall>c\<in>set l. c \<notin> {CHR ''*'', CHR ''?'', CHR ''['', CHR 0x5C}"
  shows "parsePat (l @ ''*.sql.gz*'') = Some (map TLit l @ TStar # map TLit ''.sql.gz'' @ [TStar])"
proof -
  have t: "parsePatN 9 ''*.sql.gz*'' = Some (TStar # map TLit ''.sql.gz'' @ [TStar])"
    by code_simp
  have n: "length (l @ ''*.sql.gz*'') = length l + 9"
    by simp
  have "parsePat (l @ ''*.sql.gz*'') = parsePatN (length l + 9) (l @ ''*.sql.gz*'')"
    by (simp only: parsePat_def n)
  also have "\<dots> = map_option (\<lambda>ts. map TLit l @ ts) (parsePatN 9 ''*.sql.gz*'')"
    using assms by (rule parsePatN_plain)
  finally show ?thesis by (simp add: t)
qed

lemma matchToks_lits: "matchToks (map TLit l @ ts) s \<longleftrightarrow> (\<exists>r. s = l @ r \<and> matchToks ts r)"
proof (induction l arbitrary: s)
  case Nil
  then show ?case by simp
next
  case (Cons a l)
  then show ?case by (cases s) auto
qed

lemma matchToks_star_only: "matchToks [TStar] s \<longleftrightarrow> CHR ''/'' \<notin> set s"
  by (induction s) auto

lemma matchToks_star:
  "matchToks (TStar # ts) s \<Longrightarrow> \<exists>u r. s = u @ r \<and> CHR ''/'' \<notin> set u \<and> matchToks ts r"
proof (induction s)
  case Nil
  then show ?case by simp
next
  case (Cons c cs)
  show ?case
  proof (cases "matchToks ts (c # cs)")
    case True
    then have "c # cs = [] @ (c # cs) \<and> CHR ''/'' \<notin> set [] \<and> matchToks ts (c # cs)" by simp
    then show ?thesis by blast
  next
    case False
    with Cons.prems have c: "c \<noteq> CHR ''/''" and "matchToks (TStar # ts) cs" by simp_all
    from Cons.IH [OF this(2)] obtain u r where "cs = u @ r" "CHR ''/'' \<notin> set u" "matchToks ts r"
      by blast
    with c have "c # cs = (c # u) @ r \<and> CHR ''/'' \<notin> set (c # u) \<and> matchToks ts r" by simp
    then show ?thesis by blast
  qed
qed

lemma backup_name_shape:
  assumes "matchToks (TStar # map TLit ''.sql.gz'' @ [TStar]) r"
  shows "CHR ''/'' \<notin> set r \<and> (\<exists>u v. r = u @ ''.sql.gz'' @ v)"
proof -
  from matchToks_star [OF assms] obtain u r' where
    r: "r = u @ r'" and u: "CHR ''/'' \<notin> set u" and m: "matchToks (map TLit ''.sql.gz'' @ [TStar]) r'"
    by blast
  from m obtain v where r': "r' = ''.sql.gz'' @ v" and v: "matchToks [TStar] v"
    unfolding matchToks_lits by blast
  from v have "CHR ''/'' \<notin> set v" by (simp add: matchToks_star_only)
  with r r' u show ?thesis by auto
qed

subsection \<open>Joining a directory and a single path element\<close>

lemma splitSep_nonempty: "splitSep s \<noteq> []"
  by (induction s) (auto split: list.splits)

lemma splitSep_no_sep: "CHR ''/'' \<notin> set x \<Longrightarrow> splitSep x = [x]"
  by (induction x) auto

lemma splitSep_append: "splitSep (a @ CHR ''/'' # b) = splitSep a @ splitSep b"
proof (induction a)
  case Nil
  then show ?case by simp
next
  case (Cons c a)
  then show ?case
    using splitSep_nonempty [of a] by (cases "splitSep a") auto
qed

lemma splitSep_chars: "el \<in> set (splitSep s) \<Longrightarrow> set el \<subseteq> set s"
proof (induction s arbitrary: el)
  case Nil
  then show ?case by simp
next
  case (Cons c s)
  obtain a rest where sp: "splitSep s = a # rest"
    using splitSep_nonempty [of s] by (cases "splitSep s") auto
  have a: "set a \<subseteq> set s" and r: "\<And>e. e \<in> set rest \<Longrightarrow> set e \<subseteq> set s"
    using Cons.IH sp by simp_all
  show ?case
  proof (cases "c = CHR ''/''")
    case True
    with Cons.prems sp have "el = [] \<or> el = a \<or> el \<in> set rest" by simp
    with a r show ?thesis by auto
  next
    case False
    with Cons.prems sp have "el = c # a \<or> el \<in> set rest" by simp
    with a r show ?thesis by auto
  qed
qed

lemma cleanStep_subset: "set (cleanStep rooted st c) \<subseteq> insert c (set st)"
  by (auto simp: cleanStep_def split: list.splits if_splits)

lemma foldl_cleanStep_subset: "set (foldl (cleanStep rooted) st cs) \<subseteq> set st \<union> set cs"
proof (induction cs arbitrary: st)
  case Nil
  then show ?case by simp
next
  case (Cons c cs)
  have "set (foldl (cleanStep rooted) (cleanStep rooted st c) cs) \<subseteq> set (cleanStep rooted st c) \<union> set cs"
    by (rule Cons.IH)
  with cleanStep_subset [of rooted st c] show ?case by auto
qed

lemma joinSep_snoc: "joinSep (ys @ [x]) = (if ys = [] then x else joinSep ys @ ''/'' @ x)"
  by (induction ys rule: joinSep.induct) auto

lemma joinSep_chars: "set (joinSep ys) \<subseteq> insert CHR ''/'' (\<Union> (set ` set ys))"
  by (induction ys rule: joinSep.induct) auto


lemma Clean_element:
  assumes "x \<noteq> []" and "x \<noteq> ''.''" and "x \<noteq> ''..''" and "CHR ''/'' \<notin> set x"
  shows "Clean x = x"
proof -
  from assms obtain c cs where x: "x = c # cs" and c: "c \<noteq> CHR ''/''"
    by (cases x) auto
  have r: "(case x of [] \<Rightarrow> False | c # _ \<Rightarrow> c = CHR ''/'') = False"
    using x c by simp
  have s: "foldl (cleanStep False) [] (splitSep x) = [x]"
    using assms by (simp add: splitSep_no_sep cleanStep_def)
  show ?thesis
    unfolding Clean_def Let_def r s using assms(1) by simp
qed

text \<open>
  Joining a directory with a path element that is not empty, not \<open>.\<close> or \<open>..\<close> and has no
  separator puts a fixed prefix before the element; the prefix has the characters of the
  directory and separators only.
\<close>
lemma Join_element:
  "\<exists>pre. set pre \<subseteq> insert CHR ''/'' (set dir)
         \<and> (\<forall>x. x \<noteq> [] \<and> x \<noteq> ''.'' \<and> x \<noteq> ''..'' \<and> CHR ''/'' \<notin> set x \<longrightarrow> Join dir x = pre @ x)"
proof (cases "dir = []")
  case True
  have "Join dir x = [] @ x" if "x \<noteq> [] \<and> x \<noteq> ''.'' \<and> x \<noteq> ''..'' \<and> CHR ''/'' \<notin> set x" for x
  proof -
    from that have "Clean x = x" by (simp add: Clean_element)
    with True that show ?thesis by (simp add: Join_def)
  qed
  then show ?thesis by (intro exI [of _ "[]"]) simp
next
  case False
  then obtain d ds where dir: "dir = d # ds" by (cases dir) auto
  let ?rooted = "d = CHR ''/''"
  let ?st = "foldl (cleanStep ?rooted) [] (splitSep dir)"
  let ?root = "if ?rooted then ''/'' else []"
  let ?pre = "?root @ (if rev ?st = [] then [] else joinSep (rev ?st) @ ''/'')"
  have chars: "set ?pre \<subseteq> insert CHR ''/'' (set dir)"
  proof -
    have "set ?st \<subseteq> set (splitSep dir)"
      using foldl_cleanStep_subset [of ?rooted "[]" "splitSep dir"] by simp
    then have "\<Union> (set ` set (rev ?st)) \<subseteq> set dir"
      by (auto dest: splitSep_chars)
    with joinSep_chars [of "rev ?st"] have "set (joinSep (rev ?st)) \<subseteq> insert CHR ''/'' (set dir)"
      by blast
    then show ?thesis by (auto simp: dir)
  qed
  have "Join dir x = ?pre @ x" if "x \<noteq> [] \<and> x \<noteq> ''.'' \<and> x \<noteq> ''..'' \<and> CHR ''/'' \<notin> set x" for x
  proof -
    have sp: "splitSep (dir @ CHR ''/'' # x) = splitSep dir @ [x]"
      using that by (simp add: splitSep_append splitSep_no_sep)
    have "foldl (cleanStep ?rooted) [] (splitSep dir @ [x]) = cleanStep ?rooted ?st x"
      by simp
    also have "\<dots> = x # ?st"
      using that by (simp add: cleanStep_def)
    finally have st: "foldl (cleanStep ?rooted) [] (splitSep (dir @ CHR ''/'' # x)) = x # ?st"
      by (simp only: sp)
    have k: "rev (x # ?st) = rev ?st @ [x]" by simp
    have r: "(case dir @ CHR ''/'' # x of [] \<Rightarrow> False | c # _ \<Rightarrow> c = CHR ''/'') = ?rooted"
      by (simp add: dir)
    have "Clean (dir @ CHR ''/'' # x) = ?pre @ x"
      unfolding Clean_def Let_def r st k joinSep_snoc
      using that by simp
    with False show ?thesis by (simp add: Join_def)
  qed
  with chars show ?thesis by (intro exI [of _ ?pre]) blast
qed

lemma long_element: "3 \<le> length x \<Longrightarrow> x \<noteq> [] \<and> x \<noteq> ''.'' \<and> x \<noteq> ''..''"
  by auto

text \<open>
  When the output directory and the database name have no pattern character, and the name
  no separator, every path that matches the pattern of \<open>findBackups\<close> is the directory
  joined with a single element that begins with the database name and a hyphen.
\<close>
lemma backup_pattern_matches:
  assumes "\<forall>c\<in>set dir. c \<notin> {CHR ''*'', CHR ''?'', CHR ''['', CHR 0x5C}"
    and "\<forall>c\<in>set db. c \<notin> {CHR ''*'', CHR ''?'', CHR ''['', CHR 0x5C, CHR ''/''}"
    and "parsePat (Join dir (db @ ''-*.sql.gz*'')) = Some ts" and "matchToks ts p"
  shows "\<exists>rest. p = Join dir (db @ ''-'' @ rest) \<and> CHR ''/'' \<notin> set (db @ ''-'' @ rest)
               \<and> (\<exists>u v. rest = u @ ''.sql.gz'' @ v)"
proof -
  from Join_element [of dir] obtain pre where
    pre: "set pre \<subseteq> insert CHR ''/'' (set dir)"
    and j: "\<And>x. x \<noteq> [] \<and> x \<noteq> ''.'' \<and> x \<noteq> ''..'' \<and> CHR ''/'' \<notin> set x \<Longrightarrow> Join dir x = pre @ x"
    by blast
  have ns: "CHR ''/'' \<notin> set db" using assms(2) by blast
  have e1: "CHR ''/'' \<notin> set (db @ ''-*.sql.gz*'')" using ns by simp
  have l1: "3 \<le> length (db @ ''-*.sql.gz*'')" by simp
  have "Join dir (db @ ''-*.sql.gz*'') = pre @ db @ ''-*.sql.gz*''"
    using long_element [OF l1] e1 by (intro j) blast
  then have pat: "Join dir (db @ ''-*.sql.gz*'') = (pre @ db @ ''-'') @ ''*.sql.gz*''"
    by simp
  have plain: "\<forall>c\<in>set (pre @ db @ ''-''). c \<notin> {CHR ''*'', CHR ''?'', CHR ''['', CHR 0x5C}"
  proof
    fix c assume "c \<in> set (pre @ db @ ''-'')"
    then consider "c \<in> set dir" | "c = CHR ''/''" | "c \<in> set db" | "c = CHR ''-''"
      using pre by auto
    then show "c \<notin> {CHR ''*'', CHR ''?'', CHR ''['', CHR 0x5C}"
    proof cases
      case 1 with assms(1) show ?thesis by blast
    next
      case 2 then show ?thesis by simp
    next
      case 3 with assms(2) show ?thesis by blast
    next
      case 4 then show ?thesis by simp
    qed
  qed
  have "parsePat ((pre @ db @ ''-'') @ ''*.sql.gz*'') = Some ts"
    using assms(3) by (simp only: pat)
  with parsePat_backups [OF plain]
  have ts: "ts = map TLit (pre @ db @ ''-'') @ TStar # map TLit ''.sql.gz'' @ [TStar]"
    by (simp only: option.inject)
  have "matchToks (map TLit (pre @ db @ ''-'') @ TStar # map TLit ''.sql.gz'' @ [TStar]) p"
    using assms(4) by (simp only: ts)
  then obtain rest where p: "p = (pre @ db @ ''-'') @ rest"
    and m: "matchToks (TStar # map TLit ''.sql.gz'' @ [TStar]) rest"
    by (subst (asm) matchToks_lits) blast
  from backup_name_shape [OF m] obtain u v where
    r: "CHR ''/'' \<notin> set rest" and uv: "rest = u @ ''.sql.gz'' @ v"
    by blast
  have el: "CHR ''/'' \<notin> set (db @ ''-'' @ rest)"
    using ns r by simp
  have l2: "3 \<le> length (db @ ''-'' @ rest)" by (simp add: uv)
  have "Join dir (db @ ''-'' @ rest) = pre @ db @ ''-'' @ rest"
    using long_element [OF l2] el by (intro j) blast
  then have "p = Join dir (db @ ''-'' @ rest)" by (simp add: p)
  with el uv show ?thesis by blast
qed

text \<open>
  Hence the safe case of a retention run: when the output directory and the database name
  have no pattern character, and the name no separator, every removed path is the output
  directory joined with one element \<open><db>-<rest>\<close>, where \<open>rest\<close> contains \<open>.sql.gz\<close>.
\<close>
lemma Retention_Run_plain_names:
  assumes "Retention_Run clk opt fs = (err, removed, fs')"
    and "\<forall>m. MaxBackups (retRetention opt) = Some m \<longrightarrow> 0 \<le> m"
    and "\<forall>c\<in>set (retOutputDir opt). c \<notin> {CHR ''*'', CHR ''?'', CHR ''['', CHR 0x5C}"
    and "\<forall>c\<in>set (DatabaseName opt). c \<notin> {CHR ''*'', CHR ''?'', CHR ''['', CHR 0x5C, CHR ''/''}"
    and "b \<in> set removed"
  shows "\<exists>rest. Path b = Join (retOutputDir opt) (DatabaseName opt @ ''-'' @ rest)
               \<and> CHR ''/'' \<notin> set (DatabaseName opt @ ''-'' @ rest)
               \<and> (\<exists>u v. rest = u @ ''.sql.gz'' @ v)"
proof -
  from Retention_Run_removed [OF assms(1,2)] assms(5) obtain ts where
    ts: "parsePat (Join (retOutputDir opt) (DatabaseName opt @ ''-*.sql.gz*'')) = Some ts"
    and m: "matchToks ts (Path b)"
    by blast
  from backup_pattern_matches [OF assms(3,4) ts m] show ?thesis .
qed

text \<open>
  Claim C10: every file a retention run deletes lies in the configured output directory and
  has a base name that matches \<open><db>-*.sql.gz*\<close>.  \<open>findBackups\<close> hands the output directory
  to \<open>filepath.Glob\<close> as part of the pattern, so a directory name with a pattern character is
  matched, not compared: with the output directory \<open>/data/bk?\<close> and a limit of one backup,
  the run deletes the two files of \<open>/data/bk1\<close> and keeps the only file of \<open>/data/bk?\<close>.
\<close>
theorem retention_glob_dir_failing_input:
  "(case Retention_Run
           \<lparr>Now = 1000, AddDate = (\<lambda>t y m d. t + d * 86400000000000)\<rparr>
           \<lparr>retRetention = \<lparr>RetentionDays = None, MaxBackups = Some 1\<rparr>,
            retOutputDir = ''/data/bk?'', DatabaseName = ''shop''\<rparr>
           \<lparr>nodes = [(''/data/bk1/shop-1.sql.gz'', \<lparr>fiSize = 10, fiModTime = 100, fiIsDir = False\<rparr>),
                     (''/data/bk1/shop-2.sql.gz'', \<lparr>fiSize = 10, fiModTime = 200, fiIsDir = False\<rparr>),
                     (''/data/bk?/shop-3.sql.gz'', \<lparr>fiSize = 10, fiModTime = 300, fiIsDir = False\<rparr>)],
            statErr = (\<lambda>p. None), removeErr = (\<lambda>p. None)\<rparr> of
      (err, removed, fs') \<Rightarrow> (err, map Path removed, map fst (nodes fs')))
   = (None, [''/data/bk1/shop-1.sql.gz'', ''/data/bk1/shop-2.sql.gz''], [''/data/bk?/shop-3.sql.gz''])"
  by code_simp

end
